theory Spec2Isabelle
  imports Complex_Main "HOL-Library.Multiset"
begin

section \<open>Values, errors and the Python operations the orchestrator relies on\<close>

text \<open>
  The orchestrator (\<^verbatim>\<open>agents/orchestrator.py\<close>) handles dynamically typed values: the
  decomposition is whatever \<^verbatim>\<open>json.loads\<close> returns, and the specialist agents return
  dictionaries of arbitrary content. Both are modelled by one datatype of JSON-like values.
  A dictionary is an association list read with \<open>map_of\<close>; Python floats and ints are
  real numbers (rounding, NaN and infinities are outside the model).
\<close>

datatype json =
    JNull
  | JBool bool
  | JNum real
  | JStr string
  | JArr "json list"
  | JObj "(string \<times> json) list"

text \<open>
  Every \<^verbatim>\<open>raise\<close> is a value. \<open>CapabilityFailure\<close> stands for whatever exception an external
  call (a specialist agent or the text-generation service) throws.
\<close>

datatype error =
    KeyError string
  | TypeError
  | AttributeError
  | IndexError
  | ValueError string
  | CapabilityFailure string

text \<open>\<^verbatim>\<open>d[key]\<close> with a string key: only a dictionary can answer, and only for a key it has.\<close>

fun py_getitem :: "json \<Rightarrow> string \<Rightarrow> error + json" where
  "py_getitem (JObj kvs) k = (case map_of kvs k of None \<Rightarrow> Inl (KeyError k) | Some v \<Rightarrow> Inr v)"
| "py_getitem JNull k = Inl TypeError"
| "py_getitem (JBool b) k = Inl TypeError"
| "py_getitem (JNum x) k = Inl TypeError"
| "py_getitem (JStr s) k = Inl TypeError"
| "py_getitem (JArr xs) k = Inl TypeError"

text \<open>
  What \<^verbatim>\<open>for ... in enumerate(v)\<close> walks over: the elements of a list, the characters of
  a string, the keys of a dictionary; anything else is not iterable.
\<close>

fun py_iter :: "json \<Rightarrow> error + json list" where
  "py_iter (JArr xs) = Inr xs"
| "py_iter (JStr s) = Inr (map (\<lambda>c. JStr [c]) s)"
| "py_iter (JObj kvs) = Inr (map (\<lambda>kv. JStr (fst kv)) kvs)"
| "py_iter JNull = Inl TypeError"
| "py_iter (JBool b) = Inl TypeError"
| "py_iter (JNum x) = Inl TypeError"

text \<open>\<^verbatim>\<open>d.get(key, default)\<close>: a method of dictionaries only.\<close>

fun py_get :: "json \<Rightarrow> string \<Rightarrow> json \<Rightarrow> error + json" where
  "py_get (JObj kvs) k d = Inr (case map_of kvs k of None \<Rightarrow> d | Some v \<Rightarrow> v)"
| "py_get JNull k d = Inl AttributeError"
| "py_get (JBool b) k d = Inl AttributeError"
| "py_get (JNum x) k d = Inl AttributeError"
| "py_get (JStr s) k d = Inl AttributeError"
| "py_get (JArr xs) k d = Inl AttributeError"

fun py_len :: "json \<Rightarrow> error + nat" where
  "py_len (JArr xs) = Inr (length xs)"
| "py_len (JStr s) = Inr (length s)"
| "py_len (JObj kvs) = Inr (length kvs)"
| "py_len JNull = Inl TypeError"
| "py_len (JBool b) = Inl TypeError"
| "py_len (JNum x) = Inl TypeError"

text \<open>\<^verbatim>\<open>v * 0.5\<close> with a float on the right: numbers and booleans multiply, nothing else.\<close>

fun py_mul_float :: "json \<Rightarrow> real \<Rightarrow> error + real" where
  "py_mul_float (JNum x) w = Inr (x * w)"
| "py_mul_float (JBool b) w = Inr ((if b then 1 else 0) * w)"
| "py_mul_float JNull w = Inl TypeError"
| "py_mul_float (JStr s) w = Inl TypeError"
| "py_mul_float (JArr xs) w = Inl TypeError"
| "py_mul_float (JObj kvs) w = Inl TypeError"

text \<open>\<^verbatim>\<open>v[:n]\<close>: strings and lists are sliced; every other value raises.\<close>

fun py_slice_to :: "nat \<Rightarrow> json \<Rightarrow> error + json" where
  "py_slice_to n (JStr s) = Inr (JStr (take n s))"
| "py_slice_to n (JArr xs) = Inr (JArr (take n xs))"
| "py_slice_to n JNull = Inl TypeError"
| "py_slice_to n (JBool b) = Inl TypeError"
| "py_slice_to n (JNum x) = Inl TypeError"
| "py_slice_to n (JObj kvs) = Inl TypeError"

text \<open>Running a fallible function over a list, stopping at the first error.\<close>

fun mapE :: "('a \<Rightarrow> error + 'b) \<Rightarrow> 'a list \<Rightarrow> error + 'b list" where
  "mapE f [] = Inr []"
| "mapE f (x # xs) =
     (case f x of
        Inl e \<Rightarrow> Inl e
      | Inr y \<Rightarrow> (case mapE f xs of Inl e \<Rightarrow> Inl e | Inr ys \<Rightarrow> Inr (y # ys)))"

definition bindE :: "error + 'a \<Rightarrow> ('a \<Rightarrow> error + 'b) \<Rightarrow> error + 'b" where
  "bindE m f = (case m of Inl e \<Rightarrow> Inl e | Inr x \<Rightarrow> f x)"

subsection \<open>Strings: \<^verbatim>\<open>in\<close>, \<^verbatim>\<open>split\<close>, \<^verbatim>\<open>strip\<close>\<close>

fun contains :: "string \<Rightarrow> string \<Rightarrow> bool" where
  "contains sub [] = (sub = [])"
| "contains sub (c # cs) = (take (length sub) (c # cs) = sub \<or> contains sub cs)"

text \<open>
  \<^verbatim>\<open>text.split(sep)\<close> for a non-empty separator: cut at every leftmost, non-overlapping
  occurrence. \<open>acc\<close> holds the current piece, reversed.
\<close>

function split_acc :: "string \<Rightarrow> string \<Rightarrow> string \<Rightarrow> string list" where
  "split_acc sep acc [] = [rev acc]"
| "split_acc sep acc (c # cs) =
     (if sep \<noteq> [] \<and> take (length sep) (c # cs) = sep
      then rev acc # split_acc sep [] (drop (length sep) (c # cs))
      else split_acc sep (c # acc) cs)"
  by pat_completeness auto
termination
  by (relation "measure (\<lambda>(sep, acc, s). length s)") auto

definition split :: "string \<Rightarrow> string \<Rightarrow> string list" where
  "split text sep = split_acc sep [] text"

definition py_index :: "'a list \<Rightarrow> nat \<Rightarrow> error + 'a" where
  "py_index xs i = (if i < length xs then Inr (xs ! i) else Inl IndexError)"

definition is_space :: "char \<Rightarrow> bool" where
  "is_space c = (let n = (of_char c :: nat) in (9 \<le> n \<and> n \<le> 13) \<or> (28 \<le> n \<and> n \<le> 32))"

definition strip :: "string \<Rightarrow> string" where
  "strip s = rev (dropWhile is_space (rev (dropWhile is_space s)))"

section \<open>The quality scorer\<close>

text \<open>
  \<^verbatim>\<open>_evaluate_quality\<close> (a leading underscore is not part of an Isabelle name). The three
  sums are evaluated in the source's order, so the first failing access decides the error.
\<close>

definition total_sources :: "json list \<Rightarrow> error + nat" where
  "total_sources research_results =
     bindE (mapE (\<lambda>r. bindE (py_get r ''sources'' (JArr [])) py_len) research_results)
       (\<lambda>ns. Inr (sum_list ns))"

definition analysis_completeness :: "json list \<Rightarrow> error + real" where
  "analysis_completeness analysis_results =
     bindE (mapE (\<lambda>a. py_get a ''status'' JNull) analysis_results)
       (\<lambda>sts. Inr (real (length (filter (\<lambda>s. s = JStr ''completed'') sts))
                     / real (max (length analysis_results) 1)))"

definition source_term :: "nat \<Rightarrow> real" where
  "source_term n = min (real n / 10) 1"

definition evaluate_quality :: "json list \<Rightarrow> json list \<Rightarrow> json \<Rightarrow> error + real" where
  "evaluate_quality research_results analysis_results citation_result =
     bindE (total_sources research_results) (\<lambda>n.
     bindE (py_get citation_result ''accuracy'' (JNum 0)) (\<lambda>citation_accuracy.
     bindE (analysis_completeness analysis_results) (\<lambda>completeness.
     bindE (py_mul_float citation_accuracy 0.5) (\<lambda>citation_part.
       Inr (source_term n * 0.3 + citation_part + completeness * 0.2)))))"

section \<open>External collaborators\<close>

text \<open>
  The prompts are f-strings; what varies in them is kept, the fixed wording is not.
  \<open>RefinePrompt\<close> carries the quality score, \<^verbatim>\<open>decomposition['research_queries']\<close> and
  \<^verbatim>\<open>len(research_results)\<close>; \<open>SynthesizePrompt\<close> carries the user query, the rendered
  research results (number of sources and the answer cut to 200 characters), the analysis
  results and the citation result.
\<close>

datatype prompt =
    DecomposePrompt string
  | RefinePrompt real json nat
  | SynthesizePrompt string "(nat \<times> json) list" "json list" json

text \<open>A response object: reading \<^verbatim>\<open>response.text\<close> gives the text or raises.\<close>

type_synonym response = "error + string"

datatype call =
    Generate prompt
  | Research json
  | Analysis json "json list"
  | Citation "json list" "json list"

text \<open>
  The collaborators are opaque and stateful. Each is a function of the calls made so far
  and of its arguments, which covers every deterministic stub and (the environment being
  arbitrary) every single run of a real service. \<open>json_loads\<close> is the library parser,
  \<open>None\<close> where it raises. \<open>arrival\<close> ranks the positions of a concurrent fan-out: the
  research calls of the parallel pattern settle in increasing rank.
\<close>

record env =
  generate_content_async :: "call list \<Rightarrow> prompt \<Rightarrow> error + response"
  research_agent :: "call list \<Rightarrow> json \<Rightarrow> error + json"
  analysis_agent :: "call list \<Rightarrow> json \<Rightarrow> json list \<Rightarrow> error + json"
  citation_agent :: "call list \<Rightarrow> json list \<Rightarrow> json list \<Rightarrow> error + json"
  json_loads :: "string \<Rightarrow> json option"
  arrival :: "nat \<Rightarrow> nat"

section \<open>The data model\<close>

text \<open>
  \<^verbatim>\<open>AgentTask\<close> and \<^verbatim>\<open>WorkflowExecution\<close>, without their timestamps and the workflow id
  (clock readings that no decision depends on). A task id such as \<^verbatim>\<open>f"research_{iteration}_{idx}"\<close>
  is its stem with the numbers.
\<close>

type_synonym task_id = "string \<times> nat list"

record AgentTask =
  task_id :: task_id
  agent_type :: string
  query :: json
  task_context :: "(string \<times> json list) list"
  status :: string
  result :: "json option"

datatype payload = Many "json list" | One json

record pipeline_results =
  pattern :: string
  stages :: "(string \<times> payload) list"
  final_answer :: string

text \<open>
  One entry of \<^verbatim>\<open>results["iterations"]\<close>. Its \<^verbatim>\<open>"stages"\<close> list always has the three
  entries research, analysis, citation in this order, read back by position
  (\<^verbatim>\<open>best_iteration["stages"][0]["results"]\<close> and so on); they are three fields here.
\<close>

record iteration_result =
  iteration :: nat
  research_results :: "json list"
  analysis_results :: "json list"
  citation_result :: json
  quality_score :: real

text \<open>The loop's result dictionary; a key that may be absent is an option.\<close>

record loop_results =
  loop_pattern :: string
  iterations :: "iteration_result list"
  converged :: "bool option"
  convergence_iteration :: "nat option"
  loop_final_answer :: "string option"
  best_quality_score :: "real option"

datatype results = PipelineResults pipeline_results | LoopResults loop_results

record WorkflowExecution =
  user_query :: string
  tasks :: "AgentTask list"
  execution_pattern :: string
  current_iteration :: nat
  max_iterations :: nat
  quality_threshold :: real
  final_result :: "results option"

text \<open>
  What a run can change: the workflow object, and the log of external calls in the order
  they were made.
\<close>

record state =
  workflow :: WorkflowExecution
  calls :: "call list"

type_synonym 'a action = "state \<Rightarrow> (error + 'a) \<times> state"

definition returnM :: "'a \<Rightarrow> 'a action" where
  "returnM x = (\<lambda>s. (Inr x, s))"

definition raiseM :: "error \<Rightarrow> 'a action" where
  "raiseM e = (\<lambda>s. (Inl e, s))"

definition liftE :: "error + 'a \<Rightarrow> 'a action" where
  "liftE r = (\<lambda>s. (r, s))"

text \<open>Sequencing: an exception leaves the state as it was when raised and skips the rest.\<close>

definition bindM :: "'a action \<Rightarrow> ('a \<Rightarrow> 'b action) \<Rightarrow> 'b action" where
  "bindM m f = (\<lambda>s. case m s of (Inl e, s') \<Rightarrow> (Inl e, s') | (Inr x, s') \<Rightarrow> f x s')"

definition get_workflow :: "WorkflowExecution action" where
  "get_workflow = (\<lambda>s. (Inr (workflow s), s))"

subsection \<open>Calls to the collaborators\<close>

definition call_generate :: "env \<Rightarrow> prompt \<Rightarrow> response action" where
  "call_generate env p =
     (\<lambda>s. (generate_content_async env (calls s) p, s\<lparr>calls := calls s @ [Generate p]\<rparr>))"

definition call_research :: "env \<Rightarrow> json \<Rightarrow> json action" where
  "call_research env q =
     (\<lambda>s. (research_agent env (calls s) q, s\<lparr>calls := calls s @ [Research q]\<rparr>))"

definition call_analysis :: "env \<Rightarrow> json \<Rightarrow> json list \<Rightarrow> json action" where
  "call_analysis env t ctx =
     (\<lambda>s. (analysis_agent env (calls s) t ctx, s\<lparr>calls := calls s @ [Analysis t ctx]\<rparr>))"

definition call_citation :: "env \<Rightarrow> json list \<Rightarrow> json list \<Rightarrow> json action" where
  "call_citation env ar rr =
     (\<lambda>s. (citation_agent env (calls s) ar rr, s\<lparr>calls := calls s @ [Citation ar rr]\<rparr>))"

subsection \<open>Tasks\<close>

definition new_task :: "task_id \<Rightarrow> string \<Rightarrow> json \<Rightarrow> (string \<times> json list) list \<Rightarrow> AgentTask" where
  "new_task tid ty q ctx =
     \<lparr>task_id = tid, agent_type = ty, query = q, task_context = ctx,
      status = ''pending'', result = None\<rparr>"

text \<open>\<^verbatim>\<open>workflow.tasks.append(task)\<close>; the position stands for the reference to the task.\<close>

definition append_task :: "AgentTask \<Rightarrow> nat action" where
  "append_task t =
     (\<lambda>s. (Inr (length (tasks (workflow s))),
           s\<lparr>workflow := (workflow s)\<lparr>tasks := tasks (workflow s) @ [t]\<rparr>\<rparr>))"

definition update_task :: "nat \<Rightarrow> (AgentTask \<Rightarrow> AgentTask) \<Rightarrow> unit action" where
  "update_task i f =
     (\<lambda>s. (Inr (),
           s\<lparr>workflow := (workflow s)\<lparr>tasks := (tasks (workflow s))[i := f (tasks (workflow s) ! i)]\<rparr>\<rparr>))"

definition mark_in_progress :: "AgentTask \<Rightarrow> AgentTask" where
  "mark_in_progress t = t\<lparr>status := ''in_progress''\<rparr>"

definition mark_completed :: "json \<Rightarrow> AgentTask \<Rightarrow> AgentTask" where
  "mark_completed r t = t\<lparr>result := Some r, status := ''completed''\<rparr>"

text \<open>
  The block every sequential stage repeats for one task: append it, set it
  \<^verbatim>\<open>"in_progress"\<close>, await the agent, store the result and set \<^verbatim>\<open>"completed"\<close>. There is
  no \<^verbatim>\<open>try\<close> around the awaited call.
\<close>

definition run_task :: "AgentTask \<Rightarrow> json action \<Rightarrow> json action" where
  "run_task t capability =
     bindM (append_task t) (\<lambda>i.
     bindM (update_task i mark_in_progress) (\<lambda>_.
     bindM capability (\<lambda>r.
     bindM (update_task i (mark_completed r)) (\<lambda>_.
     returnM r))))"

section \<open>Parsing a generated reply\<close>

definition extract_json_text :: "string \<Rightarrow> error + string" where
  "extract_json_text text =
     (if contains ''```json'' text
      then bindE (py_index (split text ''```json'') 1) (\<lambda>t. py_index (split t ''```'') 0)
      else if contains ''```'' text
      then bindE (py_index (split text ''```'') 1) (\<lambda>t. py_index (split t ''```'') 0)
      else Inr text)"

text \<open>The body of the \<^verbatim>\<open>try\<close> block: \<open>None\<close> when anything in it raises.\<close>

definition parse_reply :: "env \<Rightarrow> response \<Rightarrow> json option" where
  "parse_reply env response =
     (case response of
        Inl e \<Rightarrow> None
      | Inr text \<Rightarrow>
          (case extract_json_text text of
             Inl e \<Rightarrow> None
           | Inr t \<Rightarrow> json_loads env (strip t)))"

section \<open>Decomposition and refinement\<close>

definition fallback_decomposition :: "string \<Rightarrow> json" where
  "fallback_decomposition uq =
     JObj [(''research_queries'', JArr [JStr uq]),
           (''analysis_tasks'', JArr [JStr ''Analyze retrieved information'']),
           (''citation_requirements'', JArr [JStr ''Validate all claims'']),
           (''complexity'', JStr ''simple'')]"

definition decompose_query :: "env \<Rightarrow> string \<Rightarrow> json action" where
  "decompose_query env uq =
     bindM (call_generate env (DecomposePrompt uq)) (\<lambda>response.
     returnM (case parse_reply env response of
                None \<Rightarrow> fallback_decomposition uq
              | Some decomposition \<Rightarrow> decomposition))"

text \<open>The prompt reads \<^verbatim>\<open>decomposition['research_queries']\<close> before the call, outside the \<^verbatim>\<open>try\<close>.\<close>

definition refine_decomposition :: "env \<Rightarrow> json \<Rightarrow> json list \<Rightarrow> real \<Rightarrow> json action" where
  "refine_decomposition env decomposition rr score =
     bindM (liftE (py_getitem decomposition ''research_queries'')) (\<lambda>rq.
     bindM (call_generate env (RefinePrompt score rq (length rr))) (\<lambda>response.
     returnM (case parse_reply env response of
                None \<Rightarrow> decomposition
              | Some refined \<Rightarrow> refined)))"

section \<open>Synthesis\<close>

definition format_research_results :: "json list \<Rightarrow> error + (nat \<times> json) list" where
  "format_research_results rs =
     mapE (\<lambda>r.
       bindE (py_get r ''sources'' (JArr [])) (\<lambda>sources.
       bindE (py_get r ''answer'' (JStr [])) (\<lambda>answer.
       bindE (py_len sources) (\<lambda>n.
       bindE (py_slice_to 200 answer) (\<lambda>a. Inr (n, a)))))) rs"

definition synthesize_answer :: "env \<Rightarrow> string \<Rightarrow> json list \<Rightarrow> json list \<Rightarrow> json \<Rightarrow> string action" where
  "synthesize_answer env uq rr ar cr =
     bindM (liftE (format_research_results rr)) (\<lambda>rendered.
     bindM (call_generate env (SynthesizePrompt uq rendered ar cr)) (\<lambda>response.
     liftE response))"

section \<open>The stages\<close>

text \<open>
  \<^verbatim>\<open>for idx, x in enumerate(decomposition[key])\<close>: the subscript and the iteration can
  both raise, before the first task exists.
\<close>

definition stage_items :: "json \<Rightarrow> string \<Rightarrow> error + json list" where
  "stage_items decomposition key = bindE (py_getitem decomposition key) py_iter"

fun research_loop :: "env \<Rightarrow> (nat \<Rightarrow> task_id) \<Rightarrow> (nat \<times> json) list \<Rightarrow> json list \<Rightarrow> json list action" where
  "research_loop env tid [] acc = returnM acc"
| "research_loop env tid ((idx, q) # rest) acc =
     bindM (run_task (new_task (tid idx) ''research'' q []) (call_research env q)) (\<lambda>r.
     research_loop env tid rest (acc @ [r]))"

definition research_stage :: "env \<Rightarrow> (nat \<Rightarrow> task_id) \<Rightarrow> json \<Rightarrow> json list action" where
  "research_stage env tid decomposition =
     bindM (liftE (stage_items decomposition ''research_queries'')) (\<lambda>qs.
     research_loop env tid (enumerate 0 qs) [])"

fun analysis_loop ::
  "env \<Rightarrow> (nat \<Rightarrow> task_id) \<Rightarrow> json list \<Rightarrow> (nat \<times> json) list \<Rightarrow> json list \<Rightarrow> json list action" where
  "analysis_loop env tid rr [] acc = returnM acc"
| "analysis_loop env tid rr ((idx, t) # rest) acc =
     bindM (run_task (new_task (tid idx) ''analysis'' t [(''research_results'', rr)])
              (call_analysis env t rr)) (\<lambda>r.
     analysis_loop env tid rr rest (acc @ [r]))"

definition analysis_stage :: "env \<Rightarrow> (nat \<Rightarrow> task_id) \<Rightarrow> json \<Rightarrow> json list \<Rightarrow> json list action" where
  "analysis_stage env tid decomposition rr =
     bindM (liftE (stage_items decomposition ''analysis_tasks'')) (\<lambda>ts.
     analysis_loop env tid rr (enumerate 0 ts) [])"

definition citation_stage :: "env \<Rightarrow> task_id \<Rightarrow> json list \<Rightarrow> json list \<Rightarrow> json action" where
  "citation_stage env tid ar rr =
     run_task (new_task tid ''citation'' (JStr ''Validate all citations'') [(''analysis_results'', ar)])
       (call_citation env ar rr)"

section \<open>The sequential pattern\<close>

definition execute_sequential :: "env \<Rightarrow> json \<Rightarrow> results action" where
  "execute_sequential env decomposition =
     bindM (research_stage env (\<lambda>idx. (''research'', [idx])) decomposition) (\<lambda>rr.
     bindM (analysis_stage env (\<lambda>idx. (''analysis'', [idx])) decomposition rr) (\<lambda>ar.
     bindM (citation_stage env (''citation_validation'', []) ar rr) (\<lambda>cr.
     bindM get_workflow (\<lambda>wf.
     bindM (synthesize_answer env (user_query wf) rr ar cr) (\<lambda>answer.
     returnM (PipelineResults
       \<lparr>pattern = ''sequential'',
        stages = [(''research'', Many rr), (''analysis'', Many ar), (''citation'', One cr)],
        final_answer = answer\<rparr>))))))"

section \<open>The parallel pattern\<close>

text \<open>
  The first loop appends every research task, sets it \<^verbatim>\<open>"in_progress"\<close> and creates its
  coroutine; nothing is awaited yet.
\<close>

fun dispatch_loop :: "(nat \<times> json) list \<Rightarrow> nat list \<Rightarrow> nat list action" where
  "dispatch_loop [] agent_tasks = returnM agent_tasks"
| "dispatch_loop ((idx, q) # rest) agent_tasks =
     bindM (append_task (new_task (''research'', [idx]) ''research'' q [])) (\<lambda>i.
     bindM (update_task i mark_in_progress) (\<lambda>_.
     dispatch_loop rest (agent_tasks @ [i])))"

text \<open>
  \<^verbatim>\<open>await asyncio.gather(*tasks)\<close>: every coroutine has been scheduled, and the calls
  settle in the order \<open>arrival\<close> gives them, each seeing the calls settled before it. The
  first exception ends the wait with that exception; the coroutines still running are not
  cancelled, so their calls are made all the same (\<open>drain_loop\<close>) and what they return or
  raise is dropped. The result list is ordered by the position of the awaitable, whatever
  the order of arrival.
\<close>

fun drain_loop :: "env \<Rightarrow> (nat \<times> json) list \<Rightarrow> unit action" where
  "drain_loop env [] = returnM ()"
| "drain_loop env ((i, q) # rest) = (\<lambda>s. drain_loop env rest (snd (call_research env q s)))"

definition after_failure :: "'a action \<Rightarrow> unit action \<Rightarrow> 'a action" where
  "after_failure m background =
     (\<lambda>s. case m s of
            (Inl e, s') \<Rightarrow> (Inl e, snd (background s'))
          | (Inr x, s') \<Rightarrow> (Inr x, s'))"

fun gather_loop :: "env \<Rightarrow> (nat \<times> json) list \<Rightarrow> (nat \<times> json) list \<Rightarrow> (nat \<times> json) list action" where
  "gather_loop env [] arrived = returnM arrived"
| "gather_loop env ((i, q) # rest) arrived =
     bindM (after_failure (call_research env q) (drain_loop env rest)) (\<lambda>r.
     gather_loop env rest (arrived @ [(i, r)]))"

definition gather :: "env \<Rightarrow> json list \<Rightarrow> json list action" where
  "gather env qs =
     bindM (gather_loop env (sort_key (\<lambda>p. arrival env (fst p)) (enumerate 0 qs)) []) (\<lambda>arrived.
     returnM (map snd (sort_key fst arrived)))"

fun complete_loop :: "(nat \<times> json) list \<Rightarrow> unit action" where
  "complete_loop [] = returnM ()"
| "complete_loop ((i, r) # rest) =
     bindM (update_task i (mark_completed r)) (\<lambda>_. complete_loop rest)"

definition execute_parallel :: "env \<Rightarrow> json \<Rightarrow> results action" where
  "execute_parallel env decomposition =
     bindM (liftE (stage_items decomposition ''research_queries'')) (\<lambda>qs.
     bindM (dispatch_loop (enumerate 0 qs) []) (\<lambda>agent_tasks.
     bindM (gather env qs) (\<lambda>rr.
     bindM (complete_loop (zip agent_tasks rr)) (\<lambda>_.
     bindM (analysis_stage env (\<lambda>idx. (''analysis'', [idx])) decomposition rr) (\<lambda>ar.
     bindM (citation_stage env (''citation_validation'', []) ar rr) (\<lambda>cr.
     bindM get_workflow (\<lambda>wf.
     bindM (synthesize_answer env (user_query wf) rr ar cr) (\<lambda>answer.
     returnM (PipelineResults
       \<lparr>pattern = ''parallel'',
        stages = [(''parallel_research'', Many rr), (''analysis'', Many ar), (''citation'', One cr)],
        final_answer = answer\<rparr>)))))))))"

section \<open>The loop pattern\<close>

text \<open>\<^verbatim>\<open>max(items, key=...)\<close>: the first item whose key no later item exceeds; empty raises.\<close>

fun max_by :: "('a \<Rightarrow> real) \<Rightarrow> 'a list \<Rightarrow> error + 'a" where
  "max_by key [] = Inl (ValueError ''max() arg is an empty sequence'')"
| "max_by key (x # xs) = Inr (foldl (\<lambda>best y. if key y > key best then y else best) x xs)"

definition set_current_iteration :: "nat \<Rightarrow> unit action" where
  "set_current_iteration n = (\<lambda>s. (Inr (), s\<lparr>workflow := (workflow s)\<lparr>current_iteration := n\<rparr>\<rparr>))"

text \<open>One pass of the loop body, up to and including the quality evaluation.\<close>

definition loop_pass :: "env \<Rightarrow> json \<Rightarrow> nat \<Rightarrow> iteration_result action" where
  "loop_pass env decomposition it =
     bindM (research_stage env (\<lambda>idx. (''research'', [it, idx])) decomposition) (\<lambda>rr.
     bindM (analysis_stage env (\<lambda>idx. (''analysis'', [it, idx])) decomposition rr) (\<lambda>ar.
     bindM (citation_stage env (''citation'', [it]) ar rr) (\<lambda>cr.
     bindM (liftE (evaluate_quality rr ar cr)) (\<lambda>score.
     returnM \<lparr>iteration = it + 1, research_results = rr, analysis_results = ar,
              citation_result = cr, quality_score = score\<rparr>))))"

text \<open>\<^verbatim>\<open>for iteration in range(workflow.max_iterations)\<close>, over the indices still to run.\<close>

fun loop_iterations :: "env \<Rightarrow> nat list \<Rightarrow> json \<Rightarrow> loop_results \<Rightarrow> loop_results action" where
  "loop_iterations env [] decomposition results = returnM results"
| "loop_iterations env (it # rest) decomposition results =
     bindM (set_current_iteration (it + 1)) (\<lambda>_.
     bindM (loop_pass env decomposition it) (\<lambda>iteration_result.
     bindM get_workflow (\<lambda>wf.
       if quality_score iteration_result \<ge> quality_threshold wf
       then returnM (results\<lparr>iterations := iterations results @ [iteration_result],
                             converged := Some True,
                             convergence_iteration := Some (it + 1)\<rparr>)
       else if int it < int (max_iterations wf) - 1
       then bindM (refine_decomposition env decomposition
                     (research_results iteration_result) (quality_score iteration_result))
              (\<lambda>refined.
                loop_iterations env rest refined
                  (results\<lparr>iterations := iterations results @ [iteration_result]\<rparr>))
       else loop_iterations env rest decomposition
              (results\<lparr>iterations := iterations results @ [iteration_result]\<rparr>))))"

definition execute_loop :: "env \<Rightarrow> json \<Rightarrow> results action" where
  "execute_loop env decomposition =
     bindM get_workflow (\<lambda>wf0.
     bindM (loop_iterations env [0..<max_iterations wf0] decomposition
              \<lparr>loop_pattern = ''loop'', iterations = [], converged = None,
               convergence_iteration = None, loop_final_answer = None,
               best_quality_score = None\<rparr>) (\<lambda>results.
     bindM (liftE (max_by quality_score (iterations results))) (\<lambda>best_iteration.
     bindM get_workflow (\<lambda>wf.
     bindM (synthesize_answer env (user_query wf) (research_results best_iteration)
              (analysis_results best_iteration) (citation_result best_iteration)) (\<lambda>answer.
     returnM (LoopResults (results\<lparr>loop_final_answer := Some answer,
                                    best_quality_score := Some (quality_score best_iteration)\<rparr>)))))))"

section \<open>The entry point\<close>

record workflow_report =
  report_result :: results
  report_pattern :: string
  total_tasks :: nat
  metadata_iterations :: nat
  metadata_tasks :: "(task_id \<times> string \<times> string) list"

definition init_workflow :: "string \<Rightarrow> string \<Rightarrow> WorkflowExecution" where
  "init_workflow uq pat =
     \<lparr>user_query = uq, tasks = [], execution_pattern = pat, current_iteration = 0,
      max_iterations = 3, quality_threshold = 0.85, final_result = None\<rparr>"

definition set_final_result :: "results \<Rightarrow> unit action" where
  "set_final_result r = (\<lambda>s. (Inr (), s\<lparr>workflow := (workflow s)\<lparr>final_result := Some r\<rparr>\<rparr>))"

definition dispatch_pattern :: "env \<Rightarrow> string \<Rightarrow> json \<Rightarrow> results action" where
  "dispatch_pattern env pat decomposition =
     (if pat = ''sequential'' then execute_sequential env decomposition
      else if pat = ''parallel'' then execute_parallel env decomposition
      else if pat = ''loop'' then execute_loop env decomposition
      else raiseM (ValueError (''Unknown execution pattern: '' @ pat)))"

definition workflow_steps :: "env \<Rightarrow> string \<Rightarrow> string \<Rightarrow> workflow_report action" where
  "workflow_steps env uq pat =
     bindM (decompose_query env uq) (\<lambda>decomposition.
     bindM (dispatch_pattern env pat decomposition) (\<lambda>r.
     bindM (set_final_result r) (\<lambda>_.
     bindM get_workflow (\<lambda>wf.
     returnM \<lparr>report_result = r,
              report_pattern = pat,
              total_tasks = length (tasks wf),
              metadata_iterations = (if pat = ''loop'' then current_iteration wf else 1),
              metadata_tasks = map (\<lambda>t. (task_id t, agent_type t, status t)) (tasks wf)\<rparr>))))"

text \<open>
  \<^verbatim>\<open>execute_workflow\<close>: a fresh workflow with the dataclass defaults, then the steps. The
  final state is returned with the outcome, so that what the workflow looked like when an
  exception left the function can be stated.
\<close>

definition execute_workflow :: "env \<Rightarrow> string \<Rightarrow> string \<Rightarrow> (error + workflow_report) \<times> state" where
  "execute_workflow env uq pat =
     workflow_steps env uq pat \<lparr>workflow = init_workflow uq pat, calls = []\<rparr>"

section \<open>Test doubles\<close>

text \<open>
  Environments for running the model on concrete inputs. \<open>count_citations\<close> tells a double
  which pass of the loop it is in: one citation call closes each pass.
\<close>

fun is_citation :: "call \<Rightarrow> bool" where
  "is_citation (Citation ar rr) = True"
| "is_citation (Generate p) = False"
| "is_citation (Research q) = False"
| "is_citation (Analysis a ctx) = False"

definition count_citations :: "call list \<Rightarrow> nat" where
  "count_citations h = length (filter is_citation h)"

text \<open>
  A double whose answers follow a script: in pass \<open>k\<close> (counted from 0) every research call
  returns \<open>n\<close> sources, every analysis call the status \<open>st\<close>, and the citation call the
  accuracy \<open>a\<close>, where \<open>script k = (n, st, a)\<close>. Generated text is never valid JSON, so the
  decomposition is the fallback and every refinement keeps it.
\<close>

definition scripted_env :: "(nat \<Rightarrow> nat \<times> string \<times> real) \<Rightarrow> env" where
  "scripted_env script =
     \<lparr>generate_content_async = (\<lambda>h p. Inr (Inr ''plain words'')),
      research_agent = (\<lambda>h q.
         Inr (JObj [(''sources'', JArr (replicate (fst (script (count_citations h))) JNull))])),
      analysis_agent = (\<lambda>h t ctx.
         Inr (JObj [(''status'', JStr (fst (snd (script (count_citations h)))))])),
      citation_agent = (\<lambda>h ar rr.
         Inr (JObj [(''accuracy'', JNum (snd (snd (script (count_citations h)))))])),
      json_loads = (\<lambda>t. None),
      arrival = (\<lambda>i. i)\<rparr>"

text \<open>
  What one pass of the loop returns under a scripted double with the fallback decomposition,
  and the state it leaves. Two scripts: scores 0.5, 0.9, 0.3 and scores 0.2, 0.3, 0.4.
  \<open>loop_start\<close> is the state in which \<^verbatim>\<open>execute_workflow\<close> enters the loop.
\<close>

definition scripted_result :: "(nat \<Rightarrow> nat \<times> string \<times> real) \<Rightarrow> nat \<Rightarrow> nat \<Rightarrow> iteration_result" where
  "scripted_result script k it =
     \<lparr>iteration = it + 1,
      research_results = [JObj [(''sources'', JArr (replicate (fst (script k)) JNull))]],
      analysis_results = [JObj [(''status'', JStr (fst (snd (script k))))]],
      citation_result = JObj [(''accuracy'', JNum (snd (snd (script k))))],
      quality_score = source_term (fst (script k)) * 0.3 + snd (snd (script k)) * 0.5
        + (if fst (snd (script k)) = ''completed'' then 1 else 0) * 0.2\<rparr>"

definition scripted_pass_state :: "(nat \<Rightarrow> nat \<times> string \<times> real) \<Rightarrow> string \<Rightarrow> nat \<Rightarrow> state \<Rightarrow> state" where
  "scripted_pass_state script uq it s =
     snd (loop_pass (scripted_env script) (fallback_decomposition uq) it s)"

definition script_converging :: "nat \<Rightarrow> nat \<times> string \<times> real" where
  "script_converging k =
     (if k = 0 then (10, ''completed'', 0)
      else if k = 1 then (10, ''completed'', 0.8)
      else (10, ''error'', 0))"

definition script_low :: "nat \<Rightarrow> nat \<times> string \<times> real" where
  "script_low k =
     (if k = 0 then (0, ''completed'', 0)
      else if k = 1 then (0, ''completed'', 0.2)
      else (0, ''completed'', 0.4))"

definition loop_start :: "string \<Rightarrow> state" where
  "loop_start uq = \<lparr>workflow = init_workflow uq ''loop'', calls = [Generate (DecomposePrompt uq)]\<rparr>"

text \<open>Doubles in which one specialist agent always throws.\<close>

definition analysis_down :: env where
  "analysis_down = (scripted_env (\<lambda>k. (1, ''completed'', 1)))
     \<lparr>analysis_agent := (\<lambda>h t ctx. Inl (CapabilityFailure ''analysis down''))\<rparr>"

definition research_down :: env where
  "research_down = (scripted_env (\<lambda>k. (1, ''completed'', 1)))
     \<lparr>research_agent := (\<lambda>h q. Inl (CapabilityFailure ''research down''))\<rparr>"







section \<open>Vocabulary for stating properties of runs\<close>

text \<open>Whether a logged call raised, given the calls made before it.\<close>

fun outcome :: "env \<Rightarrow> call list \<Rightarrow> call \<Rightarrow> error option" where
  "outcome env h (Generate p) =
     (case generate_content_async env h p of Inl e \<Rightarrow> Some e | Inr r \<Rightarrow> None)"
| "outcome env h (Research q) =
     (case research_agent env h q of Inl e \<Rightarrow> Some e | Inr r \<Rightarrow> None)"
| "outcome env h (Analysis t ctx) =
     (case analysis_agent env h t ctx of Inl e \<Rightarrow> Some e | Inr r \<Rightarrow> None)"
| "outcome env h (Citation ar rr) =
     (case citation_agent env h ar rr of Inl e \<Rightarrow> Some e | Inr r \<Rightarrow> None)"

text \<open>Every call of \<open>ext\<close>, made after \<open>h\<close>, returned.\<close>

fun all_ok :: "env \<Rightarrow> call list \<Rightarrow> call list \<Rightarrow> bool" where
  "all_ok env h [] = True"
| "all_ok env h (c # cs) = (outcome env h c = None \<and> all_ok env (h @ [c]) cs)"

text \<open>The task a call to a specialist agent was made for.\<close>

fun task_matches :: "call \<Rightarrow> AgentTask \<Rightarrow> bool" where
  "task_matches (Generate p) t = False"
| "task_matches (Research q) t = (agent_type t = ''research'' \<and> query t = q)"
| "task_matches (Analysis a ctx) t =
     (agent_type t = ''analysis'' \<and> query t = a \<and> task_context t = [(''research_results'', ctx)])"
| "task_matches (Citation ar rr) t =
     (agent_type t = ''citation'' \<and> task_context t = [(''analysis_results'', ar)])"

fun is_generate :: "call \<Rightarrow> bool" where
  "is_generate (Generate p) = True"
| "is_generate (Research q) = False"
| "is_generate (Analysis a ctx) = False"
| "is_generate (Citation ar rr) = False"

fun is_research :: "call \<Rightarrow> bool" where
  "is_research (Research q) = True"
| "is_research (Generate p) = False"
| "is_research (Analysis a ctx) = False"
| "is_research (Citation ar rr) = False"

definition has_open_task :: "call \<Rightarrow> state \<Rightarrow> bool" where
  "has_open_task c s =
     (is_generate c \<or>
      (\<exists>t \<in> set (tasks (workflow s)).
         task_matches c t \<and> status t = ''in_progress'' \<and> result t = None))"

definition err_of :: "error + 'a \<Rightarrow> error option" where
  "err_of r = (case r of Inl e \<Rightarrow> Some e | Inr x \<Rightarrow> None)"

text \<open>
  A relation between the state before, the exception raised (if any) and the state after;
  an action obeys it when every run of the action is in it.
\<close>

definition obeys :: "(state \<Rightarrow> error option \<Rightarrow> state \<Rightarrow> bool) \<Rightarrow> 'a action \<Rightarrow> bool" where
  "obeys R m = (\<forall>s. R s (err_of (fst (m s))) (snd (m s)))"

definition closed_rel :: "(state \<Rightarrow> error option \<Rightarrow> state \<Rightarrow> bool) \<Rightarrow> bool" where
  "closed_rel R = ((\<forall>s r. R s r s) \<and> (\<forall>s s1 r s2. R s None s1 \<longrightarrow> R s1 r s2 \<longrightarrow> R s r s2))"

text \<open>
  The discipline of the call log: calls are only appended; all of them returned, unless
  the action raised exactly what the first call that raised did. Then (for a call to a
  specialist agent) the task of that call is still open, and nothing was called after it,
  except that a research call of the fan-out may be followed by the other research calls
  of the same fan-out.
\<close>

definition tracked :: "env \<Rightarrow> state \<Rightarrow> error option \<Rightarrow> state \<Rightarrow> bool" where
  "tracked env s r s' =
     (\<exists>ext. calls s' = calls s @ ext \<and>
        (all_ok env (calls s) ext \<or>
         (\<exists>ext0 c tail e. ext = ext0 @ c # tail \<and> all_ok env (calls s) ext0 \<and>
            outcome env (calls s @ ext0) c = Some e \<and> r = Some e \<and> has_open_task c s' \<and>
            (tail = [] \<or> (is_research c \<and> list_all is_research tail)))))"

text \<open>What no strategy writes: the query, the pattern, the loop's bounds, the final result.\<close>

definition same_config :: "state \<Rightarrow> error option \<Rightarrow> state \<Rightarrow> bool" where
  "same_config s r s' =
     (user_query (workflow s') = user_query (workflow s) \<and>
      execution_pattern (workflow s') = execution_pattern (workflow s) \<and>
      max_iterations (workflow s') = max_iterations (workflow s) \<and>
      quality_threshold (workflow s') = quality_threshold (workflow s) \<and>
      final_result (workflow s') = final_result (workflow s))"

text \<open>A task that has been dispatched is in progress without a result, or completed with one.\<close>

definition task_ok :: "AgentTask \<Rightarrow> bool" where
  "task_ok t =
     ((status t = ''in_progress'' \<and> result t = None) \<or>
      (status t = ''completed'' \<and> result t \<noteq> None))"

definition tasks_ok :: "state \<Rightarrow> error option \<Rightarrow> state \<Rightarrow> bool" where
  "tasks_ok s r s' =
     (list_all task_ok (tasks (workflow s)) \<longrightarrow> list_all task_ok (tasks (workflow s')))"

text \<open>
  \<open>first_best its b\<close>: \<open>b\<close> is the first entry of \<open>its\<close> with the highest quality score.
  \<open>synthesized_from env s uq rr ar cr answer\<close>: the last external call in \<open>s\<close> is the
  synthesis prompt built from these results, and \<open>answer\<close> is the text that came back.
\<close>

definition first_best :: "iteration_result list \<Rightarrow> iteration_result \<Rightarrow> bool" where
  "first_best its b =
     (\<exists>k < length its. its ! k = b \<and>
        (\<forall>j < k. quality_score (its ! j) < quality_score b) \<and>
        (\<forall>j < length its. quality_score (its ! j) \<le> quality_score b))"

definition synthesized_from ::
  "env \<Rightarrow> state \<Rightarrow> string \<Rightarrow> json list \<Rightarrow> json list \<Rightarrow> json \<Rightarrow> string \<Rightarrow> bool" where
  "synthesized_from env s uq rr ar cr answer =
     (\<exists>h rendered.
        calls s = h @ [Generate (SynthesizePrompt uq rendered ar cr)] \<and>
        format_research_results rr = Inr rendered \<and>
        generate_content_async env h (SynthesizePrompt uq rendered ar cr) = Inr (Inr answer))"






text \<open>
  The shape of a decomposition. \<open>expected_shape\<close> is the shape the decomposition prompt asks
  for, as far as the stages depend on it: an object whose \<^verbatim>\<open>research_queries\<close> and
  \<^verbatim>\<open>analysis_tasks\<close> are non-empty lists. \<open>runnable_stage d key\<close> is what the code needs for
  a stage to run at least one task: \<^verbatim>\<open>enumerate(d[key])\<close> does not raise and yields an
  item. \<open>stage_tasks ty s\<close> are the tasks of agent type \<open>ty\<close> in the workflow,
  \<open>outcome_of m s\<close> is the exception (if any) and the final state of running \<open>m\<close> from \<open>s\<close>,
  and an action \<open>adds T\<close> when it appends tasks of the agent types in \<open>T\<close> only and changes
  the agent type of no task.
\<close>

fun nonempty_list :: "json \<Rightarrow> bool" where
  "nonempty_list (JArr (x # xs)) = True"
| "nonempty_list (JArr []) = False"
| "nonempty_list JNull = False"
| "nonempty_list (JBool b) = False"
| "nonempty_list (JNum x) = False"
| "nonempty_list (JStr s) = False"
| "nonempty_list (JObj kvs) = False"

fun has_nonempty_list :: "json \<Rightarrow> string \<Rightarrow> bool" where
  "has_nonempty_list (JObj kvs) k = (case map_of kvs k of None \<Rightarrow> False | Some v \<Rightarrow> nonempty_list v)"
| "has_nonempty_list JNull k = False"
| "has_nonempty_list (JBool b) k = False"
| "has_nonempty_list (JNum x) k = False"
| "has_nonempty_list (JStr s) k = False"
| "has_nonempty_list (JArr xs) k = False"

definition expected_shape :: "json \<Rightarrow> bool" where
  "expected_shape d = (has_nonempty_list d ''research_queries'' \<and> has_nonempty_list d ''analysis_tasks'')"

definition runnable_stage :: "json \<Rightarrow> string \<Rightarrow> bool" where
  "runnable_stage d key = (case stage_items d key of Inl e \<Rightarrow> False | Inr xs \<Rightarrow> xs \<noteq> [])"




section \<open>Sequencing lemmas\<close>

lemma bindM_apply:
  "bindM m f s = (case m s of (Inl e, s') \<Rightarrow> (Inl e, s') | (Inr x, s') \<Rightarrow> f x s')"
  by (simp add: bindM_def)

lemma returnM_apply: "returnM x s = (Inr x, s)"
  by (simp add: returnM_def)

lemma raiseM_apply: "raiseM e s = (Inl e, s)"
  by (simp add: raiseM_def)

lemma liftE_apply: "liftE r s = (r, s)"
  by (simp add: liftE_def)

lemma get_workflow_apply: "get_workflow s = (Inr (workflow s), s)"
  by (simp add: get_workflow_def)

lemma after_failure_apply:
  "after_failure m background s =
     (case m s of (Inl e, s') \<Rightarrow> (Inl e, snd (background s')) | (Inr x, s') \<Rightarrow> (Inr x, s'))"
  by (simp add: after_failure_def)

lemma drain_loop_apply:
  "drain_loop env ps s = (Inr (), s\<lparr>calls := calls s @ map (\<lambda>p. Research (snd p)) ps\<rparr>)"
proof (induction ps arbitrary: s)
  case Nil
  show ?case by (simp add: returnM_def)
next
  case (Cons p ps)
  obtain i q where p: "p = (i, q)" by (cases p)
  show ?case by (simp add: p Cons.IH call_research_def)
qed

lemma gather_loop_raises:
  assumes "research_agent env (calls s) q = Inl e"
  shows "gather_loop env ((i, q) # ps) arrived s
         = (Inl e, s\<lparr>calls := calls s @ Research q # map (\<lambda>p. Research (snd p)) ps\<rparr>)"
  using assms by (simp add: bindM_apply after_failure_apply call_research_def drain_loop_apply)

lemma gather_loop_returns:
  assumes "research_agent env (calls s) q = Inr r"
  shows "gather_loop env ((i, q) # ps) arrived s
         = gather_loop env ps (arrived @ [(i, r)]) (s\<lparr>calls := calls s @ [Research q]\<rparr>)"
  using assms by (simp add: bindM_apply after_failure_apply call_research_def)

lemma bindM_Inr:
  "bindM m f s = (Inr y, s') \<longleftrightarrow> (\<exists>x s1. m s = (Inr x, s1) \<and> f x s1 = (Inr y, s'))"
  by (auto simp: bindM_def split: prod.splits sum.splits)

lemma bindM_Inl:
  "bindM m f s = (Inl e, s') \<longleftrightarrow>
     m s = (Inl e, s') \<or> (\<exists>x s1. m s = (Inr x, s1) \<and> f x s1 = (Inl e, s'))"
  by (auto simp: bindM_def split: prod.splits sum.splits)



lemma bindM_returnM: "bindM (returnM x) f = f x"
  by (simp add: bindM_def returnM_def)

lemma err_of_Inl: "err_of (Inl e) = Some e"
  by (simp add: err_of_def)

lemma err_of_Inr: "err_of (Inr x) = None"
  by (simp add: err_of_def)

lemma obeys_bind:
  assumes R: "closed_rel R" and m: "obeys R m" and f: "\<And>x. obeys R (f x)"
  shows "obeys R (bindM m f)"
  unfolding obeys_def
proof
  fix s
  obtain r s1 where ms: "m s = (r, s1)" by (cases "m s")
  from m have R1: "R s (err_of r) s1"
    using ms by (auto simp: obeys_def dest: spec [of _ s])
  show "R s (err_of (fst (bindM m f s))) (snd (bindM m f s))"
  proof (cases r)
    case (Inl e)
    with ms R1 show ?thesis by (simp add: bindM_def err_of_Inl)
  next
    case (Inr x)
    with R1 have "R s None s1" by (simp add: err_of_Inr)
    moreover from f have "R s1 (err_of (fst (f x s1))) (snd (f x s1))"
      by (simp add: obeys_def)
    ultimately have "R s (err_of (fst (f x s1))) (snd (f x s1))"
      using R by (auto simp: closed_rel_def)
    with ms Inr show ?thesis by (simp add: bindM_def)
  qed
qed

lemma obeys_pure:
  assumes "closed_rel R" and "\<And>s. snd (m s) = s"
  shows "obeys R m"
  using assms by (simp add: obeys_def closed_rel_def)

lemma obeys_returnM: "closed_rel R \<Longrightarrow> obeys R (returnM x)"
  by (rule obeys_pure) (simp_all add: returnM_def)

lemma obeys_raiseM: "closed_rel R \<Longrightarrow> obeys R (raiseM e)"
  by (rule obeys_pure) (simp_all add: raiseM_def)

lemma obeys_liftE: "closed_rel R \<Longrightarrow> obeys R (liftE r)"
  by (rule obeys_pure) (simp_all add: liftE_def)

lemma obeys_get_workflow: "closed_rel R \<Longrightarrow> obeys R get_workflow"
  by (rule obeys_pure) (simp_all add: get_workflow_def)

lemma obeys_if: "obeys R a \<Longrightarrow> obeys R b \<Longrightarrow> obeys R (if c then a else b)"
  by simp

lemma obeysD: "obeys R m \<Longrightarrow> m s = (r, s') \<Longrightarrow> R s (err_of r) s'"
  by (auto simp: obeys_def dest: spec [of _ s])

section \<open>The call log\<close>

lemma all_ok_append:
  "all_ok env h (xs @ ys) \<longleftrightarrow> all_ok env h xs \<and> all_ok env (h @ xs) ys"
  by (induction xs arbitrary: h) auto

lemma tracked_okI:
  assumes "calls s' = calls s @ ext" and "all_ok env (calls s) ext"
  shows "tracked env s r s'"
  using assms unfolding tracked_def by blast

lemma tracked_failI:
  assumes "calls s' = calls s @ ext0 @ c # tail" and "all_ok env (calls s) ext0"
    and "outcome env (calls s @ ext0) c = Some e" and "has_open_task c s'"
    and "tail = [] \<or> (is_research c \<and> list_all is_research tail)"
  shows "tracked env s (Some e) s'"
  using assms unfolding tracked_def by blast

lemma tracked_success:
  assumes "tracked env s None s'"
  obtains ext where "calls s' = calls s @ ext" and "all_ok env (calls s) ext"
  using assms unfolding tracked_def by auto

lemma tracked_cases:
  assumes "tracked env s r s'"
  obtains
    (ok) ext where "calls s' = calls s @ ext" and "all_ok env (calls s) ext"
  | (failed) ext0 c tail e where "calls s' = calls s @ ext0 @ c # tail"
      and "all_ok env (calls s) ext0" and "outcome env (calls s @ ext0) c = Some e"
      and "r = Some e" and "has_open_task c s'"
      and "tail = [] \<or> (is_research c \<and> list_all is_research tail)"
  using assms unfolding tracked_def by auto

lemma tracked_trans:
  assumes a: "tracked env s None s1" and b: "tracked env s1 r s2"
  shows "tracked env s r s2"
proof -
  from a obtain ext1 where e1: "calls s1 = calls s @ ext1" and ok1: "all_ok env (calls s) ext1"
    by (rule tracked_success)
  from b show ?thesis
  proof (cases rule: tracked_cases)
    case (ok ext2)
    with e1 ok1 have "calls s2 = calls s @ (ext1 @ ext2)" "all_ok env (calls s) (ext1 @ ext2)"
      by (simp_all add: all_ok_append)
    then show ?thesis by (rule tracked_okI)
  next
    case (failed ext0 c tail e)
    with e1 ok1 have "calls s2 = calls s @ (ext1 @ ext0) @ c # tail"
      "all_ok env (calls s) (ext1 @ ext0)" "outcome env (calls s @ (ext1 @ ext0)) c = Some e"
      by (simp_all add: all_ok_append)
    then show ?thesis unfolding failed(4) using failed(5,6) by (rule tracked_failI)
  qed
qed

lemma closed_tracked: "closed_rel (tracked env)"
  unfolding closed_rel_def
proof (intro conjI allI impI)
  fix s r
  show "tracked env s r s" by (rule tracked_okI [of _ _ "[]"]) simp_all
next
  fix s s1 r s2
  assume "tracked env s None s1" and "tracked env s1 r s2"
  then show "tracked env s r s2" by (rule tracked_trans)
qed

lemma closed_same_config: "closed_rel same_config"
  by (simp add: closed_rel_def same_config_def)

lemma closed_tasks_ok: "closed_rel tasks_ok"
  by (simp add: closed_rel_def tasks_ok_def)

lemma tracked_silent:
  assumes "\<And>s. calls (snd (m s)) = calls s"
  shows "obeys (tracked env) m"
  unfolding obeys_def
proof
  fix s
  show "tracked env s (err_of (fst (m s))) (snd (m s))"
    by (rule tracked_okI [of _ _ "[]"]) (simp_all add: assms)
qed

lemma tracked_call_generate: "obeys (tracked env) (call_generate env p)"
  unfolding obeys_def
proof
  fix s
  show "tracked env s (err_of (fst (call_generate env p s))) (snd (call_generate env p s))"
  proof (cases "generate_content_async env (calls s) p")
    case (Inl e)
    then have o: "outcome env (calls s @ []) (Generate p) = Some e" by simp
    have "tracked env s (Some e) (s\<lparr>calls := calls s @ [Generate p]\<rparr>)"
      by (rule tracked_failI [of _ _ "[]" _ "[]", OF _ _ o]) (simp_all add: has_open_task_def)
    with Inl show ?thesis by (simp add: call_generate_def err_of_Inl)
  next
    case (Inr r)
    have "tracked env s None (s\<lparr>calls := calls s @ [Generate p]\<rparr>)"
      by (rule tracked_okI [of _ _ "[Generate p]"]) (simp_all add: Inr)
    with Inr show ?thesis by (simp add: call_generate_def err_of_Inr)
  qed
qed


lemma run_task_failure:
  assumes "cap (snd (update_task (length (tasks (workflow s))) mark_in_progress (snd (append_task t s))))
             = (Inl e, s')"
  shows "run_task t cap s = (Inl e, s')"
  using assms by (simp add: run_task_def bindM_apply append_task_def update_task_def)

lemma tracked_run_task:
  assumes step: "\<And>s. snd (cap s) = s\<lparr>calls := calls s @ [c]\<rparr>"
    and out: "\<And>s. err_of (fst (cap s)) = outcome env (calls s) c"
    and m: "task_matches c (mark_in_progress t)"
    and r: "result t = None"
  shows "obeys (tracked env) (run_task t cap)"
  unfolding obeys_def
proof
  fix s :: state
  define s1 where "s1 = s\<lparr>workflow := (workflow s)\<lparr>tasks := tasks (workflow s) @ [mark_in_progress t]\<rparr>\<rparr>"
  have c1: "calls s1 = calls s" by (simp add: s1_def)
  obtain res s2 where cap: "cap s1 = (res, s2)" by (cases "cap s1")
  from step [of s1] cap have s2: "s2 = s1\<lparr>calls := calls s @ [c]\<rparr>" by (simp add: c1)
  from out [of s1] cap have o: "err_of res = outcome env (calls s) c" by (simp add: c1)
  show "tracked env s (err_of (fst (run_task t cap s))) (snd (run_task t cap s))"
  proof (cases res)
    case (Inl e)
    have run: "run_task t cap s = (Inl e, s2)"
      using cap Inl
      by (simp add: run_task_def bindM_apply append_task_def update_task_def s1_def)
    have open_task: "has_open_task c s2"
      unfolding has_open_task_def s2 s1_def using m r
      by (auto simp: mark_in_progress_def intro!: disjI2)
    from o Inl have o': "outcome env (calls s @ []) c = Some e" by (simp add: err_of_Inl)
    have "tracked env s (Some e) s2"
      by (rule tracked_failI [of _ _ "[]" _ "[]", OF _ _ o' open_task]) (simp_all add: s2 s1_def)
    then show ?thesis unfolding run by (simp add: err_of_Inl)
  next
    case (Inr x)
    have run: "calls (snd (run_task t cap s)) = calls s @ [c]"
      "err_of (fst (run_task t cap s)) = None"
      using cap Inr s2
      by (simp_all add: run_task_def bindM_apply append_task_def update_task_def s1_def
          returnM_apply err_of_Inr)
    from o Inr have "all_ok env (calls s) [c]" by (simp add: err_of_Inr)
    with run(1) show ?thesis unfolding run(2) by (rule tracked_okI)
  qed
qed

lemma tracked_research_task:
  "obeys (tracked env) (run_task (new_task tid ''research'' q ctx) (call_research env q))"
  by (rule tracked_run_task [where c = "Research q"])
     (auto simp: call_research_def err_of_def new_task_def mark_in_progress_def split: sum.splits)

lemma tracked_analysis_task:
  "obeys (tracked env)
     (run_task (new_task tid ''analysis'' a [(''research_results'', rr)]) (call_analysis env a rr))"
  by (rule tracked_run_task [where c = "Analysis a rr"])
     (auto simp: call_analysis_def err_of_def new_task_def mark_in_progress_def split: sum.splits)

lemma tracked_citation_task:
  "obeys (tracked env)
     (run_task (new_task tid ''citation'' q [(''analysis_results'', ar)]) (call_citation env ar rr))"
  by (rule tracked_run_task [where c = "Citation ar rr"])
     (auto simp: call_citation_def err_of_def new_task_def mark_in_progress_def split: sum.splits)


section \<open>What the strategies leave alone\<close>

lemma same_config_intro:
  assumes "\<And>s. same_config s None (snd (m s))"
  shows "obeys same_config m"
  using assms by (simp add: obeys_def same_config_def)

lemma same_config_call_generate: "obeys same_config (call_generate env p)"
  by (rule same_config_intro) (simp add: call_generate_def same_config_def)

lemma same_config_call_research: "obeys same_config (call_research env q)"
  by (rule same_config_intro) (simp add: call_research_def same_config_def)

lemma same_config_call_analysis: "obeys same_config (call_analysis env a rr)"
  by (rule same_config_intro) (simp add: call_analysis_def same_config_def)

lemma same_config_call_citation: "obeys same_config (call_citation env ar rr)"
  by (rule same_config_intro) (simp add: call_citation_def same_config_def)

lemma same_config_append_task: "obeys same_config (append_task t)"
  by (rule same_config_intro) (simp add: append_task_def same_config_def)

lemma same_config_update_task: "obeys same_config (update_task i f)"
  by (rule same_config_intro) (simp add: update_task_def same_config_def)

lemma same_config_set_current_iteration: "obeys same_config (set_current_iteration n)"
  by (rule same_config_intro) (simp add: set_current_iteration_def same_config_def)

lemmas config_rules =
  obeys_bind [OF closed_same_config] obeys_returnM [OF closed_same_config]
  obeys_raiseM [OF closed_same_config] obeys_liftE [OF closed_same_config]
  obeys_get_workflow [OF closed_same_config] obeys_if
  same_config_call_generate same_config_call_research same_config_call_analysis
  same_config_call_citation same_config_append_task same_config_update_task
  same_config_set_current_iteration

lemma same_config_run_task: "obeys same_config cap \<Longrightarrow> obeys same_config (run_task t cap)"
  unfolding run_task_def by (intro config_rules)

lemma same_config_research_loop: "obeys same_config (research_loop env tid ps acc)"
  by (induction ps arbitrary: acc)
     (auto intro!: config_rules same_config_run_task)

lemma same_config_analysis_loop: "obeys same_config (analysis_loop env tid rr ps acc)"
  by (induction ps arbitrary: acc)
     (auto intro!: config_rules same_config_run_task)

lemma same_config_research_stage: "obeys same_config (research_stage env tid d)"
  unfolding research_stage_def by (intro config_rules same_config_research_loop)

lemma same_config_analysis_stage: "obeys same_config (analysis_stage env tid d rr)"
  unfolding analysis_stage_def by (intro config_rules same_config_analysis_loop)

lemma same_config_citation_stage: "obeys same_config (citation_stage env tid ar rr)"
  unfolding citation_stage_def by (intro config_rules same_config_run_task)

lemma same_config_synthesize_answer: "obeys same_config (synthesize_answer env uq rr ar cr)"
  unfolding synthesize_answer_def by (intro config_rules)

lemma same_config_refine_decomposition: "obeys same_config (refine_decomposition env d rr score)"
  unfolding refine_decomposition_def by (intro config_rules)

lemma same_config_decompose_query: "obeys same_config (decompose_query env uq)"
  unfolding decompose_query_def by (intro config_rules)

lemma same_config_loop_pass: "obeys same_config (loop_pass env d it)"
  unfolding loop_pass_def
  by (intro config_rules same_config_research_stage same_config_analysis_stage
      same_config_citation_stage)

lemma same_config_dispatch_loop: "obeys same_config (dispatch_loop ps acc)"
  by (induction ps arbitrary: acc) (auto intro!: config_rules)

lemma same_config_gather_loop: "obeys same_config (gather_loop env ps arrived)"
proof (rule same_config_intro)
  have "workflow (snd (gather_loop env ps arrived s)) = workflow s" for s
  proof (induction ps arbitrary: arrived s)
    case Nil
    show ?case by (simp add: returnM_apply)
  next
    case (Cons p ps)
    obtain i q where p: "p = (i, q)" by (cases p)
    show ?case
      by (cases "research_agent env (calls s) q")
         (simp_all add: p gather_loop_raises gather_loop_returns Cons.IH del: gather_loop.simps(2))
  qed
  then show "same_config s None (snd (gather_loop env ps arrived s))" for s
    by (simp add: same_config_def)
qed

lemma same_config_complete_loop: "obeys same_config (complete_loop ps)"
  by (induction ps) (auto intro!: config_rules)

lemma same_config_gather: "obeys same_config (gather env qs)"
  unfolding gather_def by (intro config_rules same_config_gather_loop)

lemma same_config_execute_sequential: "obeys same_config (execute_sequential env d)"
  unfolding execute_sequential_def
  by (intro config_rules same_config_research_stage same_config_analysis_stage
      same_config_citation_stage same_config_synthesize_answer)

lemma same_config_execute_parallel: "obeys same_config (execute_parallel env d)"
  unfolding execute_parallel_def
  by (intro config_rules same_config_dispatch_loop same_config_gather same_config_complete_loop
      same_config_analysis_stage same_config_citation_stage same_config_synthesize_answer)

lemma same_config_loop_iterations: "obeys same_config (loop_iterations env its d res)"
  by (induction its arbitrary: d res)
     (auto intro!: config_rules same_config_loop_pass same_config_refine_decomposition)

lemma same_config_execute_loop: "obeys same_config (execute_loop env d)"
  unfolding execute_loop_def
  by (intro config_rules same_config_loop_iterations same_config_synthesize_answer)

lemma same_config_dispatch_pattern: "obeys same_config (dispatch_pattern env pat d)"
  unfolding dispatch_pattern_def
  by (intro config_rules same_config_execute_sequential same_config_execute_parallel
      same_config_execute_loop)


section \<open>The call log of the stages and strategies\<close>

lemma tracked_append_task: "obeys (tracked env) (append_task t)"
  by (rule tracked_silent) (simp add: append_task_def)

lemma tracked_update_task: "obeys (tracked env) (update_task i f)"
  by (rule tracked_silent) (simp add: update_task_def)

lemma tracked_set_current_iteration: "obeys (tracked env) (set_current_iteration n)"
  by (rule tracked_silent) (simp add: set_current_iteration_def)

lemma tracked_set_final_result: "obeys (tracked env) (set_final_result r)"
  by (rule tracked_silent) (simp add: set_final_result_def)

lemmas tracked_rules =
  obeys_bind [OF closed_tracked] obeys_returnM [OF closed_tracked]
  obeys_raiseM [OF closed_tracked] obeys_liftE [OF closed_tracked]
  obeys_get_workflow [OF closed_tracked] obeys_if
  tracked_call_generate tracked_research_task tracked_analysis_task tracked_citation_task
  tracked_update_task tracked_set_current_iteration tracked_set_final_result

lemma tracked_research_loop: "obeys (tracked env) (research_loop env tid ps acc)"
  by (induction ps arbitrary: acc) (auto intro!: tracked_rules)

lemma tracked_analysis_loop: "obeys (tracked env) (analysis_loop env tid rr ps acc)"
  by (induction ps arbitrary: acc) (auto intro!: tracked_rules)

lemma tracked_research_stage: "obeys (tracked env) (research_stage env tid d)"
  unfolding research_stage_def by (intro tracked_rules tracked_research_loop)

lemma tracked_analysis_stage: "obeys (tracked env) (analysis_stage env tid d rr)"
  unfolding analysis_stage_def by (intro tracked_rules tracked_analysis_loop)

lemma tracked_citation_stage: "obeys (tracked env) (citation_stage env tid ar rr)"
  unfolding citation_stage_def by (intro tracked_rules)

lemma tracked_synthesize_answer: "obeys (tracked env) (synthesize_answer env uq rr ar cr)"
  unfolding synthesize_answer_def by (intro tracked_rules)

lemma tracked_refine_decomposition: "obeys (tracked env) (refine_decomposition env d rr score)"
  unfolding refine_decomposition_def by (intro tracked_rules)

lemma tracked_decompose_query: "obeys (tracked env) (decompose_query env uq)"
  unfolding decompose_query_def by (intro tracked_rules)

lemma tracked_loop_pass: "obeys (tracked env) (loop_pass env d it)"
  unfolding loop_pass_def
  by (intro tracked_rules tracked_research_stage tracked_analysis_stage tracked_citation_stage)

lemma tracked_execute_sequential: "obeys (tracked env) (execute_sequential env d)"
  unfolding execute_sequential_def
  by (intro tracked_rules tracked_research_stage tracked_analysis_stage tracked_citation_stage
      tracked_synthesize_answer)

lemma tracked_loop_iterations: "obeys (tracked env) (loop_iterations env its d res)"
  by (induction its arbitrary: d res)
     (auto intro!: tracked_rules tracked_loop_pass tracked_refine_decomposition)

lemma tracked_execute_loop: "obeys (tracked env) (execute_loop env d)"
  unfolding execute_loop_def
  by (intro tracked_rules tracked_loop_iterations tracked_synthesize_answer)

lemma tracked_complete_loop: "obeys (tracked env) (complete_loop ps)"
  by (induction ps) (auto intro!: tracked_rules)

subsection \<open>The fan-out and the join\<close>

lemma dispatch_loop_apply:
  "dispatch_loop ps acc s =
     (Inr (acc @ [length (tasks (workflow s))..<length (tasks (workflow s)) + length ps]),
      s\<lparr>workflow := (workflow s)\<lparr>tasks := tasks (workflow s) @
         map (\<lambda>p. mark_in_progress (new_task (''research'', [fst p]) ''research'' (snd p) [])) ps\<rparr>\<rparr>)"
proof (induction ps arbitrary: acc s)
  case Nil
  then show ?case by (simp add: returnM_apply)
next
  case (Cons p ps)
  obtain idx q where p: "p = (idx, q)" by (cases p)
  have idx: "n # [Suc n..<Suc (n + k)] = [n..<Suc (n + k)]" for n k :: nat
    by (simp add: upt_conv_Cons del: upt_Suc)
  show ?case
    unfolding p
    by (simp add: bindM_apply append_task_def update_task_def Cons.IH idx del: upt_Suc)
qed

lemma gather_loop_tracked:
  assumes "\<forall>p \<in> set ps. has_open_task (Research (snd p)) s"
  shows "tracked env s (err_of (fst (gather_loop env ps arrived s)))
           (snd (gather_loop env ps arrived s))"
  using assms
proof (induction ps arbitrary: arrived s)
  case Nil
  show ?case by (rule tracked_okI [of _ _ "[]"]) (simp_all add: returnM_apply)
next
  case (Cons p ps)
  obtain i q where p: "p = (i, q)" by (cases p)
  define s1 where "s1 = s\<lparr>calls := calls s @ [Research q]\<rparr>"
  have open1: "has_open_task c s1 = has_open_task c s" for c
    by (simp add: has_open_task_def s1_def)
  show ?case
  proof (cases "research_agent env (calls s) q")
    case (Inl e)
    define s2 where "s2 = s\<lparr>calls := calls s @ Research q # map (\<lambda>p. Research (snd p)) ps\<rparr>"
    from Inl have run: "gather_loop env (p # ps) arrived s = (Inl e, s2)"
      by (simp add: p gather_loop_raises s2_def del: gather_loop.simps(2))
    from Cons.prems have o: "has_open_task (Research q) s2"
      by (simp add: p has_open_task_def s2_def)
    from Inl have f: "outcome env (calls s @ []) (Research q) = Some e" by simp
    have "list_all is_research (map (\<lambda>p. Research (snd p)) ps)"
      by (simp add: list_all_iff)
    then have "tracked env s (Some e) s2"
      by (intro tracked_failI [of _ _ "[]" "Research q" "map (\<lambda>p. Research (snd p)) ps", OF _ _ f o])
         (simp_all add: s2_def)
    then show ?thesis unfolding run by (simp add: err_of_Inl)
  next
    case (Inr r)
    then have run: "gather_loop env (p # ps) arrived s = gather_loop env ps (arrived @ [(i, r)]) s1"
      by (simp add: p gather_loop_returns s1_def del: gather_loop.simps(2))
    have first: "tracked env s None s1"
      by (rule tracked_okI [of _ _ "[Research q]"]) (simp_all add: s1_def Inr)
    from Cons.prems have "\<forall>p \<in> set ps. has_open_task (Research (snd p)) s1"
      by (simp add: open1)
    from first Cons.IH [OF this] show ?thesis
      unfolding run by (rule tracked_trans)
  qed
qed

lemma tracked_fan_out:
  assumes K: "\<And>ats rr. obeys (tracked env) (K ats rr)"
  shows "obeys (tracked env)
           (bindM (dispatch_loop (enumerate 0 qs) []) (\<lambda>ats. bindM (gather env qs) (K ats)))"
  unfolding obeys_def
proof
  fix s :: state
  define ps where "ps = sort_key (\<lambda>p. arrival env (fst p)) (enumerate 0 qs)"
  obtain ats s1 where d: "dispatch_loop (enumerate 0 qs) [] s = (Inr ats, s1)"
    and s1: "s1 = s\<lparr>workflow := (workflow s)\<lparr>tasks := tasks (workflow s) @
         map (\<lambda>p. mark_in_progress (new_task (''research'', [fst p]) ''research'' (snd p) []))
           (enumerate 0 qs)\<rparr>\<rparr>"
    by (simp add: dispatch_loop_apply)
  have first: "tracked env s None s1"
    by (rule tracked_okI [of _ _ "[]"]) (simp_all add: s1)
  have "has_open_task (Research (snd p)) s1" if "p \<in> set (enumerate 0 qs)" for p
  proof -
    let ?t = "mark_in_progress (new_task (''research'', [fst p]) ''research'' (snd p) [])"
    from that have "?t \<in> set (tasks (workflow s1))" by (simp add: s1)
    moreover have "task_matches (Research (snd p)) ?t \<and> status ?t = ''in_progress'' \<and> result ?t = None"
      by (simp add: mark_in_progress_def new_task_def)
    ultimately show ?thesis unfolding has_open_task_def by blast
  qed
  then have "\<forall>p \<in> set ps. has_open_task (Research (snd p)) s1"
    by (simp add: ps_def)
  then have g: "tracked env s1 (err_of (fst (gather_loop env ps [] s1)))
      (snd (gather_loop env ps [] s1))"
    by (rule gather_loop_tracked)
  let ?m = "bindM (dispatch_loop (enumerate 0 qs) []) (\<lambda>ats. bindM (gather env qs) (K ats))"
  obtain r s2 where gl: "gather_loop env ps [] s1 = (r, s2)" by (cases "gather_loop env ps [] s1")
  show "tracked env s (err_of (fst (?m s))) (snd (?m s))"
  proof (cases r)
    case (Inl e)
    then have "?m s = (Inl e, s2)"
      using d gl by (simp add: bindM_apply gather_def ps_def)
    with g gl Inl first show ?thesis
      using closed_tracked [of env] by (auto simp: closed_rel_def err_of_Inl)
  next
    case (Inr arrived)
    then have run: "?m s = K ats (map snd (sort_key fst arrived)) s2"
      using d gl by (simp add: bindM_apply gather_def ps_def returnM_apply)
    from g gl Inr first have "tracked env s None s2"
      using closed_tracked [of env] by (auto simp: closed_rel_def err_of_Inr)
    moreover have "tracked env s2 (err_of (fst (K ats (map snd (sort_key fst arrived)) s2)))
        (snd (K ats (map snd (sort_key fst arrived)) s2))"
      using K by (simp add: obeys_def)
    ultimately show ?thesis
      unfolding run using closed_tracked [of env] by (auto simp: closed_rel_def)
  qed
qed

lemma tracked_execute_parallel: "obeys (tracked env) (execute_parallel env d)"
  unfolding execute_parallel_def
  by (intro obeys_bind [OF closed_tracked, of _ "liftE _"] obeys_liftE [OF closed_tracked]
      tracked_fan_out)
     (intro tracked_rules tracked_complete_loop tracked_analysis_stage tracked_citation_stage
      tracked_synthesize_answer)

lemma tracked_dispatch_pattern: "obeys (tracked env) (dispatch_pattern env pat d)"
  unfolding dispatch_pattern_def
  by (intro tracked_rules tracked_execute_sequential tracked_execute_parallel tracked_execute_loop)

lemma tracked_workflow_steps: "obeys (tracked env) (workflow_steps env uq pat)"
  unfolding workflow_steps_def
  by (intro tracked_rules tracked_decompose_query tracked_dispatch_pattern)

section \<open>Task states\<close>

lemma tasks_ok_intro:
  assumes "\<And>s. tasks (workflow (snd (m s))) = tasks (workflow s)"
  shows "obeys tasks_ok m"
  using assms by (simp add: obeys_def tasks_ok_def)

lemma tasks_ok_call_generate: "obeys tasks_ok (call_generate env p)"
  by (rule tasks_ok_intro) (simp add: call_generate_def)

lemma tasks_ok_set_current_iteration: "obeys tasks_ok (set_current_iteration n)"
  by (rule tasks_ok_intro) (simp add: set_current_iteration_def)

lemma tasks_ok_set_final_result: "obeys tasks_ok (set_final_result r)"
  by (rule tasks_ok_intro) (simp add: set_final_result_def)

lemma tasks_ok_run_task:
  assumes cap: "\<And>s. workflow (snd (cap s)) = workflow s" and r: "result t = None"
  shows "obeys tasks_ok (run_task t cap)"
  unfolding obeys_def
proof
  fix s :: state
  define s1 where "s1 = s\<lparr>workflow := (workflow s)\<lparr>tasks := tasks (workflow s) @ [mark_in_progress t]\<rparr>\<rparr>"
  obtain res s2 where c: "cap s1 = (res, s2)" by (cases "cap s1")
  from cap [of s1] c have w: "workflow s2 = workflow s1" by simp
  have t1: "task_ok (mark_in_progress t)"
    using r by (simp add: task_ok_def mark_in_progress_def)
  have t2: "task_ok (mark_completed x (mark_in_progress t))" for x
    by (simp add: task_ok_def mark_in_progress_def mark_completed_def)
  show "tasks_ok s (err_of (fst (run_task t cap s))) (snd (run_task t cap s))"
  proof (cases res)
    case (Inl e)
    then have "run_task t cap s = (Inl e, s2)"
      using c by (simp add: run_task_def bindM_apply append_task_def update_task_def s1_def)
    then show ?thesis using w t1 by (simp add: tasks_ok_def s1_def)
  next
    case (Inr x)
    then have "tasks (workflow (snd (run_task t cap s)))
        = tasks (workflow s) @ [mark_completed x (mark_in_progress t)]"
      using c w
      by (simp add: run_task_def bindM_apply append_task_def update_task_def s1_def returnM_apply)
    then show ?thesis using t2 by (simp add: tasks_ok_def)
  qed
qed

lemma tasks_ok_research_task:
  "obeys tasks_ok (run_task (new_task tid ty q ctx) (call_research env q'))"
  by (rule tasks_ok_run_task) (simp_all add: call_research_def new_task_def)

lemma tasks_ok_analysis_task:
  "obeys tasks_ok (run_task (new_task tid ty q ctx) (call_analysis env a rr))"
  by (rule tasks_ok_run_task) (simp_all add: call_analysis_def new_task_def)

lemma tasks_ok_citation_task:
  "obeys tasks_ok (run_task (new_task tid ty q ctx) (call_citation env ar rr))"
  by (rule tasks_ok_run_task) (simp_all add: call_citation_def new_task_def)

lemma tasks_ok_dispatch_loop: "obeys tasks_ok (dispatch_loop ps acc)"
  by (auto simp: obeys_def tasks_ok_def dispatch_loop_apply list_all_iff task_ok_def
      mark_in_progress_def new_task_def)

lemma tasks_ok_complete: "obeys tasks_ok (update_task i (mark_completed r))"
proof -
  have "list_all task_ok (xs[i := mark_completed r (xs ! i)])" if "list_all task_ok xs" for xs
    using that
    by (auto simp: list_all_iff task_ok_def mark_completed_def dest!: set_update_subset_insert [THEN subsetD])
  then show ?thesis by (simp add: obeys_def tasks_ok_def update_task_def)
qed

lemma tasks_ok_gather_loop: "obeys tasks_ok (gather_loop env ps arrived)"
proof (rule tasks_ok_intro)
  show "tasks (workflow (snd (gather_loop env ps arrived s))) = tasks (workflow s)" for s
  proof (induction ps arbitrary: arrived s)
    case Nil
    show ?case by (simp add: returnM_apply)
  next
    case (Cons p ps)
    obtain i q where p: "p = (i, q)" by (cases p)
    show ?case
      by (cases "research_agent env (calls s) q")
         (simp_all add: p gather_loop_raises gather_loop_returns Cons.IH del: gather_loop.simps(2))
  qed
qed

lemmas tasks_ok_rules =
  obeys_bind [OF closed_tasks_ok] obeys_returnM [OF closed_tasks_ok]
  obeys_raiseM [OF closed_tasks_ok] obeys_liftE [OF closed_tasks_ok]
  obeys_get_workflow [OF closed_tasks_ok] obeys_if
  tasks_ok_call_generate tasks_ok_set_current_iteration tasks_ok_set_final_result
  tasks_ok_research_task tasks_ok_analysis_task tasks_ok_citation_task
  tasks_ok_dispatch_loop tasks_ok_complete tasks_ok_gather_loop

lemma tasks_ok_research_loop: "obeys tasks_ok (research_loop env tid ps acc)"
  by (induction ps arbitrary: acc) (auto intro!: tasks_ok_rules)

lemma tasks_ok_analysis_loop: "obeys tasks_ok (analysis_loop env tid rr ps acc)"
  by (induction ps arbitrary: acc) (auto intro!: tasks_ok_rules)

lemma tasks_ok_complete_loop: "obeys tasks_ok (complete_loop ps)"
  by (induction ps) (auto intro!: tasks_ok_rules)

lemma tasks_ok_loop_pass: "obeys tasks_ok (loop_pass env d it)"
  unfolding loop_pass_def research_stage_def analysis_stage_def citation_stage_def
  by (intro tasks_ok_rules tasks_ok_research_loop tasks_ok_analysis_loop)

lemma tasks_ok_synthesize_answer: "obeys tasks_ok (synthesize_answer env uq rr ar cr)"
  unfolding synthesize_answer_def by (intro tasks_ok_rules)

lemma tasks_ok_refine_decomposition: "obeys tasks_ok (refine_decomposition env d rr score)"
  unfolding refine_decomposition_def by (intro tasks_ok_rules)

lemma tasks_ok_loop_iterations: "obeys tasks_ok (loop_iterations env its d res)"
  by (induction its arbitrary: d res)
     (auto intro!: tasks_ok_rules tasks_ok_loop_pass tasks_ok_refine_decomposition)

lemma tasks_ok_dispatch_pattern: "obeys tasks_ok (dispatch_pattern env pat d)"
  unfolding dispatch_pattern_def execute_sequential_def execute_parallel_def execute_loop_def
    research_stage_def analysis_stage_def citation_stage_def gather_def
  by (intro tasks_ok_rules tasks_ok_research_loop tasks_ok_analysis_loop tasks_ok_complete_loop
      tasks_ok_loop_iterations tasks_ok_synthesize_answer)

lemma tasks_ok_workflow_steps: "obeys tasks_ok (workflow_steps env uq pat)"
  unfolding workflow_steps_def decompose_query_def
  by (intro tasks_ok_rules tasks_ok_dispatch_pattern)

section \<open>Runs of the entry point\<close>

lemma workflow_steps_failure_config:
  assumes "workflow_steps env uq pat s = (Inl e, s')"
  shows "same_config s None s'"
proof -
  have c: "closed_rel same_config" by (rule closed_same_config)
  from assms consider
      (a) "decompose_query env uq s = (Inl e, s')"
    | (b) d s1 where "decompose_query env uq s = (Inr d, s1)"
        "dispatch_pattern env pat d s1 = (Inl e, s')"
    by (auto simp: workflow_steps_def bindM_Inl set_final_result_def get_workflow_def
        returnM_def bindM_apply split: prod.splits sum.splits)
  then show ?thesis
  proof cases
    case a
    from obeysD [OF same_config_decompose_query a] show ?thesis
      by (simp add: same_config_def)
  next
    case b
    from obeysD [OF same_config_decompose_query b(1)] obeysD [OF same_config_dispatch_pattern b(2)]
    show ?thesis by (simp add: same_config_def)
  qed
qed

lemma failed_call_is_last:
  assumes t: "tracked env s r s'" and e: "calls s = []"
    and c: "calls s' = h @ c # rest" and o: "outcome env h c = Some e"
    and nr: "\<not> is_research c"
  shows "rest = [] \<and> r = Some e \<and> has_open_task c s'"
proof -
  have no: "\<not> all_ok env [] (h @ c # rest')" for rest'
    using o by (simp add: all_ok_append)
  from t show ?thesis
  proof (cases rule: tracked_cases)
    case (ok ext)
    with e c no [of rest] show ?thesis by simp
  next
    case (failed ext0 c' tail e')
    from failed(1) e c have eq: "h @ c # rest = ext0 @ c' # tail" by simp
    then consider
      (same) "h = ext0" "c = c'" "rest = tail"
      | (before) us where "ext0 = h @ c # us"
      | (after) us where "h = ext0 @ c' # us" "tail = us @ c # rest"
      by (auto simp: append_eq_append_conv2 append_eq_Cons_conv Cons_eq_append_conv)
    then show ?thesis
    proof cases
      case same
      with failed e o nr show ?thesis by auto
    next
      case (before us)
      with failed(2) e no [of us] show ?thesis by simp
    next
      case (after us)
      with failed(6) nr show ?thesis by auto
    qed
  qed
qed

section \<open>Evaluating concrete runs\<close>

lemma parse_reply_no_json: "json_loads env = (\<lambda>t. None) \<Longrightarrow> parse_reply env response = None"
  by (simp add: parse_reply_def split: sum.splits)

lemmas run_simps =
  bindM_apply returnM_apply raiseM_apply liftE_apply get_workflow_apply
  call_generate_def call_research_def call_analysis_def call_citation_def
  append_task_def update_task_def set_current_iteration_def set_final_result_def
  run_task_def new_task_def mark_in_progress_def mark_completed_def
  research_stage_def analysis_stage_def citation_stage_def stage_items_def bindE_def
  loop_pass_def decompose_query_def refine_decomposition_def synthesize_answer_def
  format_research_results_def evaluate_quality_def total_sources_def analysis_completeness_def
  source_term_def parse_reply_no_json fallback_decomposition_def
  execute_loop_def execute_sequential_def execute_parallel_def gather_def
  after_failure_apply drain_loop_apply
  dispatch_pattern_def workflow_steps_def execute_workflow_def init_workflow_def
  enumerate_eq_zip scripted_env_def count_citations_def

section \<open>The loop\<close>

lemma foldl_max_first_best:
  fixes key :: "'a \<Rightarrow> real"
  defines "step \<equiv> (\<lambda>best y. if key y > key best then y else best)"
  shows "\<exists>pre post. x # ys = pre @ foldl step x ys # post \<and>
           (\<forall>y \<in> set pre. key y < key (foldl step x ys)) \<and>
           (\<forall>y \<in> set post. key y \<le> key (foldl step x ys))"
proof (induction ys rule: rev_induct)
  case Nil
  show ?case by (rule exI [of _ "[]"]) simp
next
  case (snoc y ys)
  let ?b = "foldl step x ys"
  from snoc obtain pre post where d: "x # ys = pre @ ?b # post"
    and lt: "\<forall>z \<in> set pre. key z < key ?b" and le: "\<forall>z \<in> set post. key z \<le> key ?b"
    by blast
  show ?case
  proof (cases "key y > key ?b")
    case True
    then have b: "foldl step x (ys @ [y]) = y" by (simp add: step_def)
    have "x # ys @ [y] = (pre @ ?b # post) @ y # []" using d by simp
    moreover have "\<forall>z \<in> set (pre @ ?b # post). key z < key y"
      using lt le True by auto
    ultimately show ?thesis unfolding b by (intro exI [of _ "pre @ ?b # post"] exI [of _ "[]"]) simp
  next
    case False
    then have b: "foldl step x (ys @ [y]) = ?b" by (simp add: step_def)
    have "x # ys @ [y] = pre @ ?b # (post @ [y])" using d by simp
    moreover have "\<forall>z \<in> set (post @ [y]). key z \<le> key ?b" using le False by auto
    ultimately show ?thesis unfolding b using lt by blast
  qed
qed

lemma max_by_first_best:
  assumes "max_by key xs = Inr b"
  shows "\<exists>pre post. xs = pre @ b # post \<and>
           (\<forall>y \<in> set pre. key y < key b) \<and> (\<forall>y \<in> set post. key y \<le> key b)"
proof (cases xs)
  case Nil
  with assms show ?thesis by simp
next
  case (Cons x ys)
  with assms have "b = foldl (\<lambda>best y. if key y > key best then y else best) x ys" by simp
  with foldl_max_first_best [of x ys key] Cons show ?thesis by simp
qed

lemma loop_pass_iteration:
  assumes "loop_pass env d it s = (Inr x, s')"
  shows "iteration x = it + 1"
  using assms
  by (auto simp: loop_pass_def bindM_Inr returnM_apply)

lemma set_current_iteration_config:
  "same_config s None (snd (set_current_iteration n s))"
  by (simp add: set_current_iteration_def same_config_def)

lemma loop_iterations_result:
  assumes "loop_iterations env its d res s = (Inr res', s')"
  shows "\<exists>new. iterations res' = iterations res @ new \<and>
           map iteration new = map Suc (take (length new) its) \<and>
           length new \<le> length its \<and>
           (\<forall>x \<in> set (butlast new). quality_score x < quality_threshold (workflow s)) \<and>
           ((new \<noteq> [] \<and> quality_threshold (workflow s) \<le> quality_score (last new) \<and>
               converged res' = Some True \<and>
               convergence_iteration res' = Some (iteration (last new)))
            \<or> (length new = length its \<and>
               (\<forall>x \<in> set new. quality_score x < quality_threshold (workflow s)) \<and>
               converged res' = converged res \<and>
               convergence_iteration res' = convergence_iteration res)) \<and>
           loop_pattern res' = loop_pattern res \<and>
           loop_final_answer res' = loop_final_answer res \<and>
           best_quality_score res' = best_quality_score res"
  using assms
proof (induction its arbitrary: d res s)
  case Nil
  then show ?case by (simp add: returnM_apply)
next
  case (Cons it rest)
  let ?th = "quality_threshold (workflow s)"
  let ?sa = "snd (set_current_iteration (it + 1) s)"
  from Cons.prems obtain x sb where pass: "loop_pass env d it ?sa = (Inr x, sb)"
    and rest: "(if quality_threshold (workflow sb) \<le> quality_score x
           then returnM (res\<lparr>iterations := iterations res @ [x], converged := Some True,
                              convergence_iteration := Some (it + 1)\<rparr>)
           else if int it < int (max_iterations (workflow sb)) - 1
           then bindM (refine_decomposition env d (research_results x) (quality_score x))
                  (\<lambda>refined. loop_iterations env rest refined
                     (res\<lparr>iterations := iterations res @ [x]\<rparr>))
           else loop_iterations env rest d (res\<lparr>iterations := iterations res @ [x]\<rparr>)) sb
         = (Inr res', s')"
    by (auto simp: bindM_Inr set_current_iteration_def get_workflow_apply)
  have it: "iteration x = Suc it" using loop_pass_iteration [OF pass] by simp
  have th: "quality_threshold (workflow sb) = ?th"
    using obeysD [OF same_config_loop_pass pass] set_current_iteration_config [of s "it + 1"]
    by (simp add: same_config_def)
  show ?case
  proof (cases "?th \<le> quality_score x")
    case True
    with rest th have r: "res' = res\<lparr>iterations := iterations res @ [x], converged := Some True,
        convergence_iteration := Some (it + 1)\<rparr>"
      by (simp add: returnM_apply)
    show ?thesis
      by (rule exI [of _ "[x]"]) (simp add: r it True)
  next
    case False
    let ?res1 = "res\<lparr>iterations := iterations res @ [x]\<rparr>"
    from rest th False obtain d1 sc where rec: "loop_iterations env rest d1 ?res1 sc = (Inr res', s')"
      and thc: "quality_threshold (workflow sc) = ?th"
    proof (cases "int it < int (max_iterations (workflow sb)) - 1")
      case True
      with rest th False obtain d1 sc where
        rf: "refine_decomposition env d (research_results x) (quality_score x) sb = (Inr d1, sc)"
        and rec: "loop_iterations env rest d1 ?res1 sc = (Inr res', s')"
        by (auto simp: bindM_Inr)
      from obeysD [OF same_config_refine_decomposition rf] th
      have "quality_threshold (workflow sc) = ?th" by (simp add: same_config_def)
      with rec that show ?thesis by blast
    next
      case no: False
      with rest th False have "loop_iterations env rest d ?res1 sb = (Inr res', s')" by simp
      with th that show ?thesis by blast
    qed
    from Cons.IH [OF rec] obtain new where n:
      "iterations res' = iterations ?res1 @ new"
      "map iteration new = map Suc (take (length new) rest)"
      "length new \<le> length rest"
      "\<forall>y \<in> set (butlast new). quality_score y < ?th"
      "(new \<noteq> [] \<and> ?th \<le> quality_score (last new) \<and> converged res' = Some True \<and>
          convergence_iteration res' = Some (iteration (last new)))
       \<or> (length new = length rest \<and> (\<forall>y \<in> set new. quality_score y < ?th) \<and>
          converged res' = converged ?res1 \<and>
          convergence_iteration res' = convergence_iteration ?res1)"
      "loop_pattern res' = loop_pattern ?res1"
      "loop_final_answer res' = loop_final_answer ?res1"
      "best_quality_score res' = best_quality_score ?res1"
      unfolding thc by blast
    from False have lt: "quality_score x < ?th" by simp
    have bl: "\<forall>y \<in> set (butlast (x # new)). quality_score y < ?th"
      using n(4) lt by (cases new) auto
    show ?thesis
      apply (rule exI [of _ "x # new"])
      using n bl lt it by auto
  qed
qed


lemma first_bestI:
  assumes "its = pre @ b # post"
    and "\<forall>x \<in> set pre. quality_score x < quality_score b"
    and "\<forall>x \<in> set post. quality_score x \<le> quality_score b"
  shows "first_best its b"
  unfolding first_best_def
proof (intro exI [of _ "length pre"] conjI allI impI)
  show "length pre < length its" using assms(1) by simp
  show "its ! length pre = b" using assms(1) by simp
  show "quality_score (its ! j) < quality_score b" if "j < length pre" for j
    using that assms(1,2) by (simp add: nth_append)
  show "quality_score (its ! j) \<le> quality_score b" if "j < length its" for j
  proof -
    from that have "its ! j \<in> set its" by simp
    with assms show ?thesis by auto
  qed
qed

lemma synthesize_answer_result:
  assumes "synthesize_answer env uq rr ar cr s = (Inr answer, s')"
  shows "synthesized_from env s' uq rr ar cr answer"
  using assms
  by (auto simp: synthesize_answer_def synthesized_from_def bindM_Inr liftE_apply call_generate_def)

lemma execute_loop_result:
  assumes run: "execute_loop env d s = (Inr (LoopResults res), s')"
  shows "\<exists>best answer.
           first_best (iterations res) best \<and>
           best_quality_score res = Some (quality_score best) \<and>
           loop_final_answer res = Some answer \<and>
           synthesized_from env s' (user_query (workflow s)) (research_results best)
             (analysis_results best) (citation_result best) answer \<and>
           map iteration (iterations res) = [1..<Suc (length (iterations res))] \<and>
           length (iterations res) \<le> max_iterations (workflow s) \<and>
           (\<forall>x \<in> set (butlast (iterations res)). quality_score x < quality_threshold (workflow s)) \<and>
           ((quality_threshold (workflow s) \<le> quality_score (last (iterations res)) \<and>
               converged res = Some True \<and>
               convergence_iteration res = Some (length (iterations res)))
            \<or> ((\<forall>x \<in> set (iterations res). quality_score x < quality_threshold (workflow s)) \<and>
               converged res = None \<and> convergence_iteration res = None \<and>
               length (iterations res) = max_iterations (workflow s)))"
proof -
  let ?r0 = "\<lparr>loop_pattern = ''loop'', iterations = [], converged = None,
       convergence_iteration = None, loop_final_answer = None, best_quality_score = None\<rparr>"
  let ?n = "max_iterations (workflow s)"
  from run obtain res1 s1 best answer where
    li: "loop_iterations env [0..<?n] d ?r0 s = (Inr res1, s1)"
    and mb: "max_by quality_score (iterations res1) = Inr best"
    and sy: "synthesize_answer env (user_query (workflow s1)) (research_results best)
        (analysis_results best) (citation_result best) s1 = (Inr answer, s')"
    and res: "res = res1\<lparr>loop_final_answer := Some answer,
        best_quality_score := Some (quality_score best)\<rparr>"
    by (auto simp: execute_loop_def bindM_Inr get_workflow_apply liftE_apply returnM_apply)
  from obeysD [OF same_config_loop_iterations li]
  have uq: "user_query (workflow s1) = user_query (workflow s)"
    by (simp add: same_config_def)
  from loop_iterations_result [OF li] obtain new where n:
    "iterations res1 = new"
    "map iteration new = map Suc (take (length new) [0..<?n])"
    "length new \<le> ?n"
    "\<forall>x \<in> set (butlast new). quality_score x < quality_threshold (workflow s)"
    "(new \<noteq> [] \<and> quality_threshold (workflow s) \<le> quality_score (last new) \<and>
        converged res1 = Some True \<and> convergence_iteration res1 = Some (iteration (last new)))
     \<or> (length new = ?n \<and> (\<forall>x \<in> set new. quality_score x < quality_threshold (workflow s)) \<and>
        converged res1 = None \<and> convergence_iteration res1 = None)"
    by auto
  have its: "iterations res = new" using res n(1) by simp
  from max_by_first_best [OF mb] obtain pre post where
    "iterations res1 = pre @ best # post"
    "\<forall>y \<in> set pre. quality_score y < quality_score best"
    "\<forall>y \<in> set post. quality_score y \<le> quality_score best"
    by blast
  then have fb: "first_best (iterations res) best"
    using res by (intro first_bestI [of _ pre best post]) simp_all
  then have ne: "new \<noteq> []" using its by (auto simp: first_best_def)
  have numbering: "map iteration new = [1..<Suc (length new)]"
  proof -
    have "take (length new) [0..<?n] = [0..<length new]" using n(3) by (simp add: take_upt)
    then show ?thesis using n(2) by (simp add: map_Suc_upt)
  qed
  have lastit: "iteration (last new) = length new"
  proof -
    have "iteration (last new) = last (map iteration new)" using ne by (simp add: last_map)
    also have "\<dots> = length new"
      unfolding numbering using ne by (cases new rule: rev_cases) simp_all
    finally show ?thesis .
  qed
  from synthesize_answer_result [OF sy] uq
  have sf: "synthesized_from env s' (user_query (workflow s)) (research_results best)
      (analysis_results best) (citation_result best) answer"
    by simp
  have stop: "(quality_threshold (workflow s) \<le> quality_score (last (iterations res)) \<and>
        converged res = Some True \<and> convergence_iteration res = Some (length (iterations res)))
      \<or> ((\<forall>x \<in> set (iterations res). quality_score x < quality_threshold (workflow s)) \<and>
        converged res = None \<and> convergence_iteration res = None \<and>
        length (iterations res) = ?n)"
    using n(5) res its lastit by auto
  show ?thesis
    apply (rule exI [of _ best])
    apply (rule exI [of _ answer])
    using fb sf stop numbering n(3,4) its res by simp
qed


section \<open>Runs of the scripted double\<close>

lemma parse_reply_scripted: "parse_reply (scripted_env script) response = None"
  by (rule parse_reply_no_json) (simp add: scripted_env_def)

lemma count_citations_append:
  "count_citations (h @ h') = count_citations h + count_citations h'"
  by (simp add: count_citations_def)

lemma scripted_refine:
  "refine_decomposition (scripted_env script) (fallback_decomposition uq) rr score s =
     (Inr (fallback_decomposition uq),
      s\<lparr>calls := calls s @ [Generate (RefinePrompt score (JArr [JStr uq]) (length rr))]\<rparr>)"
  by (simp add: run_simps)

lemma scripted_pass_fst:
  "fst (loop_pass (scripted_env script) (fallback_decomposition uq) it s)
     = Inr (scripted_result script (count_citations (calls s)) it)"
  by (simp add: run_simps scripted_result_def count_citations_append)

lemma scripted_pass_count:
  "count_citations (calls (snd (loop_pass (scripted_env script) (fallback_decomposition uq) it s)))
     = Suc (count_citations (calls s))"
  by (simp add: run_simps count_citations_append)

lemma scripted_pass:
  "loop_pass (scripted_env script) (fallback_decomposition uq) it s =
     (Inr (scripted_result script (count_citations (calls s)) it), scripted_pass_state script uq it s)"
  by (rule prod_eqI) (simp_all add: scripted_pass_fst scripted_pass_state_def)

lemma scripted_pass_state_count:
  "count_citations (calls (scripted_pass_state script uq it s)) = Suc (count_citations (calls s))"
  unfolding scripted_pass_state_def by (rule scripted_pass_count)

lemma scripted_pass_state_config:
  "quality_threshold (workflow (scripted_pass_state script uq it s)) = quality_threshold (workflow s)"
  "max_iterations (workflow (scripted_pass_state script uq it s)) = max_iterations (workflow s)"
  "user_query (workflow (scripted_pass_state script uq it s)) = user_query (workflow s)"
  using obeysD [OF same_config_loop_pass scripted_pass [of script uq it s]]
  by (simp_all add: same_config_def)


lemma scripted_generate:
  "generate_content_async (scripted_env script) h p = Inr (Inr ''plain words'')"
  by (simp add: scripted_env_def)

lemma count_citations_Nil: "count_citations [] = 0"
  by (simp add: count_citations_def)

lemma count_citations_Cons:
  "count_citations (c # h) = (if is_citation c then 1 else 0) + count_citations h"
  by (simp add: count_citations_def)

lemmas scripted_loop_simps =
  execute_loop_def bindM_apply get_workflow_apply liftE_apply returnM_apply
  set_current_iteration_def scripted_pass scripted_refine scripted_pass_state_config
  scripted_pass_state_count count_citations_append count_citations_Nil count_citations_Cons
  loop_start_def init_workflow_def upt_rec scripted_result_def source_term_def
  synthesize_answer_def format_research_results_def bindE_def call_generate_def
  scripted_generate

lemma converging_run:
  "fst (execute_loop (scripted_env script_converging) (fallback_decomposition ''q'') (loop_start ''q''))
     = Inr (LoopResults
         \<lparr>loop_pattern = ''loop'',
          iterations = [scripted_result script_converging 0 0, scripted_result script_converging 1 1],
          converged = Some True, convergence_iteration = Some 2,
          loop_final_answer = Some ''plain words'', best_quality_score = Some 0.9\<rparr>)"
  by (simp add: scripted_loop_simps script_converging_def
      cong: prod.case_cong_weak sum.case_cong_weak)

lemma low_run:
  "fst (execute_loop (scripted_env script_low) (fallback_decomposition ''q'') (loop_start ''q''))
     = Inr (LoopResults
         \<lparr>loop_pattern = ''loop'',
          iterations = [scripted_result script_low 0 0, scripted_result script_low 1 1,
                        scripted_result script_low 2 2],
          converged = None, convergence_iteration = None,
          loop_final_answer = Some ''plain words'', best_quality_score = Some 0.4\<rparr>)"
  by (simp add: scripted_loop_simps script_low_def
      cong: prod.case_cong_weak sum.case_cong_weak)


lemma scripted_workflow_loop:
  "map_sum id report_result (fst (execute_workflow (scripted_env script) uq ''loop''))
     = fst (execute_loop (scripted_env script) (fallback_decomposition uq) (loop_start uq))"
proof -
  have d: "decompose_query (scripted_env script) uq \<lparr>workflow = init_workflow uq ''loop'', calls = []\<rparr>
      = (Inr (fallback_decomposition uq), loop_start uq)"
    by (simp add: decompose_query_def bindM_apply call_generate_def returnM_apply
        parse_reply_scripted scripted_generate loop_start_def)
  obtain r s where l: "execute_loop (scripted_env script) (fallback_decomposition uq) (loop_start uq) = (r, s)"
    by (cases "execute_loop (scripted_env script) (fallback_decomposition uq) (loop_start uq)")
  show ?thesis
    by (cases r)
       (simp_all add: execute_workflow_def workflow_steps_def bindM_apply d dispatch_pattern_def l
         set_final_result_def get_workflow_apply returnM_apply)
qed

section \<open>Properties of the quality scorer\<close>

lemma bindE_Inr_iff: "bindE m f = Inr y \<longleftrightarrow> (\<exists>x. m = Inr x \<and> f x = Inr y)"
  by (cases m) (simp_all add: bindE_def)

lemma source_term_bounds: "0 \<le> source_term n \<and> source_term n \<le> 1"
  by (simp add: source_term_def)

lemma analysis_completeness_bounds:
  assumes "analysis_completeness ar = Inr c"
  shows "0 \<le> c \<and> c \<le> 1"
proof -
  from assms obtain sts where sts: "mapE (\<lambda>a. py_get a ''status'' JNull) ar = Inr sts"
    and c: "c = real (length (filter (\<lambda>s. s = JStr ''completed'') sts)) / real (max (length ar) 1)"
    by (auto simp: analysis_completeness_def bindE_Inr_iff)
  have len: "length sts = length ar"
    using sts by (induction ar arbitrary: sts) (auto split: sum.splits)
  have "length (filter (\<lambda>s. s = JStr ''completed'') sts) \<le> length sts"
    by (rule length_filter_le)
  with len have "real (length (filter (\<lambda>s. s = JStr ''completed'') sts)) \<le> real (max (length ar) 1)"
    by simp
  moreover have "0 < real (max (length ar) 1)" by simp
  ultimately show ?thesis unfolding c by (simp add: divide_le_eq_1)
qed


subsection \<open>Claim C7: the range of the quality score\<close>

lemma evaluate_quality_Inr:
  assumes "evaluate_quality rr ar cr = Inr score"
  shows "\<exists>n acc c part. total_sources rr = Inr n \<and> py_get cr ''accuracy'' (JNum 0) = Inr acc \<and>
           analysis_completeness ar = Inr c \<and> py_mul_float acc 0.5 = Inr part \<and>
           score = source_term n * 0.3 + part + c * 0.2"
  using assms unfolding evaluate_quality_def bindE_Inr_iff by blast

text \<open>
  The source term is clamped by \<^verbatim>\<open>min(total_sources / 10, 1.0)\<close> and the completeness
  term is a ratio in [0,1]; the weights 0.3, 0.5 and 0.2 add up to 1. So the score is in
  [0,1] whenever the accuracy of the citation result is a number in [0,1].
\<close>

lemma evaluate_quality_bounded:
  assumes "evaluate_quality rr ar cr = Inr score"
    and "py_get cr ''accuracy'' (JNum 0) = Inr (JNum a)"
    and "0 \<le> a" and "a \<le> 1"
  shows "0 \<le> score \<and> score \<le> 1 \<and>
         (\<exists>n c. total_sources rr = Inr n \<and> analysis_completeness ar = Inr c \<and>
            score = 0.3 * source_term n + 0.5 * a + 0.2 * c \<and>
            0 \<le> source_term n \<and> source_term n \<le> 1 \<and> 0 \<le> c \<and> c \<le> 1) \<and>
         0.3 + 0.5 + 0.2 = (1::real)"
proof -
  from evaluate_quality_Inr [OF assms(1)] assms(2)
  obtain n c where n: "total_sources rr = Inr n" and c: "analysis_completeness ar = Inr c"
    and score: "score = source_term n * 0.3 + a * 0.5 + c * 0.2"
    by auto
  have st: "0 \<le> source_term n \<and> source_term n \<le> 1" by (rule source_term_bounds)
  have cb: "0 \<le> c \<and> c \<le> 1" using c by (rule analysis_completeness_bounds)
  have lo: "0 \<le> score" unfolding score using st cb assms(3) by simp
  have "source_term n * 0.3 \<le> 0.3" "a * 0.5 \<le> 0.5" "c * 0.2 \<le> 0.2"
    using st cb assms(4) by simp_all
  then have hi: "score \<le> 1" unfolding score by linarith
  have eq: "score = 0.3 * source_term n + 0.5 * a + 0.2 * c"
    unfolding score by (simp add: mult.commute)
  show ?thesis using lo hi n c eq st cb by auto
qed

lemma evaluate_quality_bounded_example:
  "evaluate_quality [JObj [(''sources'', JArr [JNull])]] [JObj [(''status'', JStr ''completed'')]]
     (JObj [(''accuracy'', JNum 0.9)]) = Inr 0.68 \<and> (0::real) \<le> 0.68 \<and> (0.68::real) \<le> 1"
proof -
  have run: "evaluate_quality [JObj [(''sources'', JArr [JNull])]]
      [JObj [(''status'', JStr ''completed'')]] (JObj [(''accuracy'', JNum 0.9)]) = Inr 0.68"
    by (simp add: evaluate_quality_def total_sources_def analysis_completeness_def bindE_def
        source_term_def)
  have acc: "py_get (JObj [(''accuracy'', JNum 0.9)]) ''accuracy'' (JNum 0) = Inr (JNum 0.9)"
    by simp
  from evaluate_quality_bounded [OF run acc] run show ?thesis by simp
qed

text \<open>
  Claim C7 says that the score is in [0,1] for all inputs, each term being clamped, as
  does the docstring of \<^verbatim>\<open>_evaluate_quality\<close> (\<^verbatim>\<open>Quality score between 0.0 and 1.0\<close>). The
  code does otherwise: the citation term is \<^verbatim>\<open>citation_result.get('accuracy', 0.0) * 0.5\<close>,
  the accuracy as it was received, with no clamp. For no research results, no analysis
  results and a citation result of accuracy 3 the score is 1.5.
\<close>

theorem evaluate_quality_unclamped_accuracy:
  "evaluate_quality [] [] (JObj [(''accuracy'', JNum 3)]) = Inr (3 / 2) \<and> \<not> (3 / 2 \<le> (1::real))"
  by (simp add: evaluate_quality_def total_sources_def analysis_completeness_def bindE_def
      source_term_def)

subsection \<open>Claim C8: the fallback decomposition\<close>

text \<open>
  Claim C8: when the reply to the decomposition prompt cannot be parsed (anything in the
  \<^verbatim>\<open>try\<close> block raises), \<^verbatim>\<open>_decompose_query\<close> returns the fallback: one research query
  equal to the user query, one generic analysis task, one generic citation requirement,
  complexity "simple"; so each of the three lists has an item.
\<close>

theorem decompose_query_fallback:
  assumes "generate_content_async env (calls s) (DecomposePrompt uq) = Inr response"
    and "parse_reply env response = None"
  shows "fst (decompose_query env uq s) = Inr (fallback_decomposition uq) \<and>
         stage_items (fallback_decomposition uq) ''research_queries'' = Inr [JStr uq] \<and>
         stage_items (fallback_decomposition uq) ''analysis_tasks''
           = Inr [JStr ''Analyze retrieved information''] \<and>
         stage_items (fallback_decomposition uq) ''citation_requirements''
           = Inr [JStr ''Validate all claims''] \<and>
         py_getitem (fallback_decomposition uq) ''complexity'' = Inr (JStr ''simple'')"
  using assms
  by (simp add: decompose_query_def bindM_apply call_generate_def returnM_apply
      fallback_decomposition_def stage_items_def bindE_def)

theorem decompose_query_fallback_witness:
  "fst (decompose_query (scripted_env (\<lambda>k. (0, [], 0))) ''fund size?''
         \<lparr>workflow = init_workflow ''fund size?'' ''sequential'', calls = []\<rparr>)
     = Inr (fallback_decomposition ''fund size?'') \<and>
   stage_items (fallback_decomposition ''fund size?'') ''research_queries''
     = Inr [JStr ''fund size?'']"
proof -
  have g: "generate_content_async (scripted_env (\<lambda>k. (0, [], 0)))
      (calls \<lparr>workflow = init_workflow ''fund size?'' ''sequential'', calls = []\<rparr>)
      (DecomposePrompt ''fund size?'') = Inr (Inr ''plain words'')"
    by (simp add: scripted_env_def)
  have p: "parse_reply (scripted_env (\<lambda>k. (0, [], 0))) (Inr ''plain words'') = None"
    by (simp add: parse_reply_def scripted_env_def split: sum.splits)
  from decompose_query_fallback [OF g p] show ?thesis by simp
qed

subsection \<open>Claim C9: refinement keeps the decomposition on a malformed reply\<close>

text \<open>
  Claim C9: when the reply to the refinement prompt cannot be parsed, \<^verbatim>\<open>_refine_decomposition\<close>
  returns the decomposition it was given, and the workflow is untouched. (The prompt can
  only be built for a decomposition that has \<^verbatim>\<open>research_queries\<close>.)
\<close>

theorem refine_decomposition_identity:
  assumes "py_getitem d ''research_queries'' = Inr rq"
    and "generate_content_async env (calls s) (RefinePrompt score rq (length rr)) = Inr response"
    and "parse_reply env response = None"
  shows "fst (refine_decomposition env d rr score s) = Inr d \<and>
         workflow (snd (refine_decomposition env d rr score s)) = workflow s"
  using assms
  by (simp add: refine_decomposition_def bindM_apply liftE_apply call_generate_def returnM_apply)

theorem refine_decomposition_identity_witness:
  "fst (refine_decomposition (scripted_env (\<lambda>k. (0, [], 0))) (fallback_decomposition ''q'') [] 0.5
         \<lparr>workflow = init_workflow ''q'' ''loop'', calls = []\<rparr>)
     = Inr (fallback_decomposition ''q'')"
proof -
  have k: "py_getitem (fallback_decomposition ''q'') ''research_queries'' = Inr (JArr [JStr ''q''])"
    by (simp add: fallback_decomposition_def)
  have g: "generate_content_async (scripted_env (\<lambda>k. (0, [], 0)))
      (calls \<lparr>workflow = init_workflow ''q'' ''loop'', calls = []\<rparr>)
      (RefinePrompt 0.5 (JArr [JStr ''q'']) (length ([]::json list))) = Inr (Inr ''plain words'')"
    by (simp add: scripted_env_def)
  have p: "parse_reply (scripted_env (\<lambda>k. (0, [], 0))) (Inr ''plain words'') = None"
    by (simp add: parse_reply_def scripted_env_def split: sum.splits)
  from refine_decomposition_identity [OF k g p] show ?thesis by simp
qed

subsection \<open>Claim C1: the loop stops at the threshold and synthesizes from the best pass\<close>

text \<open>
  Claim C1: whenever the loop pattern returns, the pass used for synthesis is the first one
  with the highest score (the last external call is the synthesis prompt built from that
  pass's research, analysis and citation results, and its reply is the final answer); the
  passes are numbered 1, 2, ...; every pass but the last scored below the threshold; and if
  the last pass reached the threshold then \<^verbatim>\<open>converged\<close> is true and
  \<^verbatim>\<open>convergence_iteration\<close> is its number. The witness is the run with scores 0.5, 0.9
  (and 0.3 scripted for a third pass) under the defaults 3 and 0.85: two passes, converged
  at 2, answer synthesized from pass 2.
\<close>

theorem loop_stops_at_threshold_and_selects_best:
  assumes "execute_loop env d s = (Inr (LoopResults res), s')"
  shows "\<exists>best answer.
           first_best (iterations res) best \<and>
           best_quality_score res = Some (quality_score best) \<and>
           loop_final_answer res = Some answer \<and>
           synthesized_from env s' (user_query (workflow s)) (research_results best)
             (analysis_results best) (citation_result best) answer \<and>
           map iteration (iterations res) = [1..<Suc (length (iterations res))] \<and>
           length (iterations res) \<le> max_iterations (workflow s) \<and>
           (\<forall>x \<in> set (butlast (iterations res)). quality_score x < quality_threshold (workflow s)) \<and>
           (if quality_threshold (workflow s) \<le> quality_score (last (iterations res))
            then converged res = Some True \<and>
                 convergence_iteration res = Some (length (iterations res))
            else converged res = None \<and> convergence_iteration res = None \<and>
                 length (iterations res) = max_iterations (workflow s))"
proof -
  from execute_loop_result [OF assms] obtain best answer where r:
    "first_best (iterations res) best"
    "best_quality_score res = Some (quality_score best)"
    "loop_final_answer res = Some answer"
    "synthesized_from env s' (user_query (workflow s)) (research_results best)
       (analysis_results best) (citation_result best) answer"
    "map iteration (iterations res) = [1..<Suc (length (iterations res))]"
    "length (iterations res) \<le> max_iterations (workflow s)"
    "\<forall>x \<in> set (butlast (iterations res)). quality_score x < quality_threshold (workflow s)"
    "(quality_threshold (workflow s) \<le> quality_score (last (iterations res)) \<and>
        converged res = Some True \<and> convergence_iteration res = Some (length (iterations res)))
     \<or> ((\<forall>x \<in> set (iterations res). quality_score x < quality_threshold (workflow s)) \<and>
        converged res = None \<and> convergence_iteration res = None \<and>
        length (iterations res) = max_iterations (workflow s))"
    by blast
  from r(1) have ne: "iterations res \<noteq> []" by (auto simp: first_best_def)
  then have "last (iterations res) \<in> set (iterations res)" by simp
  with r(8) have stop: "if quality_threshold (workflow s) \<le> quality_score (last (iterations res))
      then converged res = Some True \<and> convergence_iteration res = Some (length (iterations res))
      else converged res = None \<and> convergence_iteration res = None \<and>
           length (iterations res) = max_iterations (workflow s)"
    by (auto simp: not_le)
  show ?thesis
    apply (rule exI [of _ best])
    apply (rule exI [of _ answer])
    using r(1-7) stop by simp
qed

theorem loop_stops_at_threshold_and_selects_best_witness:
  "map_sum id report_result (fst (execute_workflow (scripted_env script_converging) ''q'' ''loop''))
     = Inr (LoopResults
         \<lparr>loop_pattern = ''loop'',
          iterations = [scripted_result script_converging 0 0, scripted_result script_converging 1 1],
          converged = Some True, convergence_iteration = Some 2,
          loop_final_answer = Some ''plain words'', best_quality_score = Some 0.9\<rparr>) \<and>
   map quality_score (map (\<lambda>k. scripted_result script_converging k k) [0, 1, 2]) = [0.5, 0.9, 0.3] \<and>
   synthesized_from (scripted_env script_converging)
     (snd (execute_loop (scripted_env script_converging) (fallback_decomposition ''q'') (loop_start ''q'')))
     ''q'' (research_results (scripted_result script_converging 1 1))
     (analysis_results (scripted_result script_converging 1 1))
     (citation_result (scripted_result script_converging 1 1)) ''plain words''"
proof -
  let ?E = "scripted_env script_converging"
  let ?X = "execute_loop ?E (fallback_decomposition ''q'') (loop_start ''q'')"
  let ?i1 = "scripted_result script_converging 0 0"
  let ?i2 = "scripted_result script_converging 1 1"
  let ?res = "\<lparr>loop_pattern = ''loop'', iterations = [?i1, ?i2],
          converged = Some True, convergence_iteration = Some 2,
          loop_final_answer = Some ''plain words'', best_quality_score = Some 0.9\<rparr>"
  have scores: "quality_score ?i1 = 0.5" "quality_score ?i2 = 0.9"
    "quality_score (scripted_result script_converging 2 2) = 0.3"
    by (simp_all add: scripted_result_def script_converging_def source_term_def)
  have run: "?X = (Inr (LoopResults ?res), snd ?X)"
    using converging_run by (intro prod_eqI) simp_all
  from loop_stops_at_threshold_and_selects_best [OF run]
  obtain best answer where fb: "first_best [?i1, ?i2] best"
    and an: "Some ''plain words'' = Some answer"
    and sf: "synthesized_from ?E (snd ?X) (user_query (workflow (loop_start ''q'')))
      (research_results best) (analysis_results best) (citation_result best) answer"
    by auto
  from fb obtain k where k: "k < length [?i1, ?i2]" "[?i1, ?i2] ! k = best"
    "\<forall>j < length [?i1, ?i2]. quality_score ([?i1, ?i2] ! j) \<le> quality_score best"
    unfolding first_best_def by blast
  have "best = ?i2"
  proof (cases "k = 0")
    case True
    with k(2) have "best = ?i1" by simp
    with k(3) [rule_format, of 1] scores show ?thesis by simp
  next
    case False
    with k(1) have "k = 1" by simp
    with k(2) show ?thesis by simp
  qed
  with sf an have "synthesized_from ?E (snd ?X) ''q'' (research_results ?i2)
      (analysis_results ?i2) (citation_result ?i2) ''plain words''"
    by (simp add: loop_start_def init_workflow_def)
  then show ?thesis
    using converging_run scores by (simp add: scripted_workflow_loop)
qed

subsection \<open>Claim C2: the loop without convergence\<close>

text \<open>
  Claim C2, as stated, fails in one point: with scores 0.2, 0.3, 0.4 the loop runs three
  passes and synthesizes from the third, but the result has no \<^verbatim>\<open>converged\<close> entry at
  all; the key is written only when a pass converges, and then with the value true.
\<close>

theorem loop_without_convergence_leaves_converged_unset:
  "map_sum id report_result (fst (execute_workflow (scripted_env script_low) ''q'' ''loop''))
     = Inr (LoopResults
         \<lparr>loop_pattern = ''loop'',
          iterations = [scripted_result script_low 0 0, scripted_result script_low 1 1,
                        scripted_result script_low 2 2],
          converged = None, convergence_iteration = None,
          loop_final_answer = Some ''plain words'', best_quality_score = Some 0.4\<rparr>) \<and>
   map quality_score [scripted_result script_low 0 0, scripted_result script_low 1 1,
                      scripted_result script_low 2 2] = [0.2, 0.3, 0.4]"
  using low_run
  by (simp add: scripted_workflow_loop scripted_result_def script_low_def source_term_def)

text \<open>
  Claim C2, amended: when no pass reaches the threshold, the loop runs exactly
  \<^verbatim>\<open>max_iterations\<close> passes, the result carries neither \<^verbatim>\<open>converged\<close> nor
  \<^verbatim>\<open>convergence_iteration\<close>, and the first pass with the highest score is the one
  synthesized from.
\<close>

theorem loop_without_convergence:
  assumes "execute_loop env d s = (Inr (LoopResults res), s')"
    and "\<forall>x \<in> set (iterations res). quality_score x < quality_threshold (workflow s)"
  shows "length (iterations res) = max_iterations (workflow s) \<and>
         converged res = None \<and> convergence_iteration res = None \<and>
         (\<exists>best answer.
            first_best (iterations res) best \<and>
            best_quality_score res = Some (quality_score best) \<and>
            loop_final_answer res = Some answer \<and>
            synthesized_from env s' (user_query (workflow s)) (research_results best)
              (analysis_results best) (citation_result best) answer)"
proof -
  from execute_loop_result [OF assms(1)] obtain best answer where r:
    "first_best (iterations res) best"
    "best_quality_score res = Some (quality_score best)"
    "loop_final_answer res = Some answer"
    "synthesized_from env s' (user_query (workflow s)) (research_results best)
       (analysis_results best) (citation_result best) answer"
    "(quality_threshold (workflow s) \<le> quality_score (last (iterations res)) \<and>
        converged res = Some True \<and> convergence_iteration res = Some (length (iterations res)))
     \<or> ((\<forall>x \<in> set (iterations res). quality_score x < quality_threshold (workflow s)) \<and>
        converged res = None \<and> convergence_iteration res = None \<and>
        length (iterations res) = max_iterations (workflow s))"
    by blast
  from r(1) have "iterations res \<noteq> []" by (auto simp: first_best_def)
  then have "last (iterations res) \<in> set (iterations res)" by simp
  with assms(2) have "\<not> quality_threshold (workflow s) \<le> quality_score (last (iterations res))"
    by (auto simp: not_le)
  with r(5) have "converged res = None \<and> convergence_iteration res = None \<and>
      length (iterations res) = max_iterations (workflow s)"
    by blast
  with r(1-4) show ?thesis by blast
qed

theorem loop_without_convergence_witness:
  "length [scripted_result script_low 0 0, scripted_result script_low 1 1,
           scripted_result script_low 2 2]
     = max_iterations (workflow (loop_start ''q'')) \<and>
   max_iterations (workflow (loop_start ''q'')) = 3 \<and>
   quality_threshold (workflow (loop_start ''q'')) = 0.85 \<and>
   synthesized_from (scripted_env script_low)
     (snd (execute_loop (scripted_env script_low) (fallback_decomposition ''q'') (loop_start ''q'')))
     ''q'' (research_results (scripted_result script_low 2 2))
     (analysis_results (scripted_result script_low 2 2))
     (citation_result (scripted_result script_low 2 2)) ''plain words''"
proof -
  let ?E = "scripted_env script_low"
  let ?X = "execute_loop ?E (fallback_decomposition ''q'') (loop_start ''q'')"
  let ?i1 = "scripted_result script_low 0 0"
  let ?i2 = "scripted_result script_low 1 1"
  let ?i3 = "scripted_result script_low 2 2"
  let ?res = "\<lparr>loop_pattern = ''loop'', iterations = [?i1, ?i2, ?i3],
          converged = None, convergence_iteration = None,
          loop_final_answer = Some ''plain words'', best_quality_score = Some 0.4\<rparr>"
  have scores: "quality_score ?i1 = 0.2" "quality_score ?i2 = 0.3" "quality_score ?i3 = 0.4"
    by (simp_all add: scripted_result_def script_low_def source_term_def)
  have run: "?X = (Inr (LoopResults ?res), snd ?X)"
    using low_run by (intro prod_eqI) simp_all
  have low: "\<forall>x \<in> set (iterations ?res). quality_score x < quality_threshold (workflow (loop_start ''q''))"
    using scores by (simp add: loop_start_def init_workflow_def)
  from loop_without_convergence [OF run low]
  obtain best answer where len: "length (iterations ?res) = max_iterations (workflow (loop_start ''q''))"
    and fb: "first_best [?i1, ?i2, ?i3] best"
    and an: "Some ''plain words'' = Some answer"
    and sf: "synthesized_from ?E (snd ?X) (user_query (workflow (loop_start ''q'')))
      (research_results best) (analysis_results best) (citation_result best) answer"
    by auto
  from fb obtain k where k: "k < length [?i1, ?i2, ?i3]" "[?i1, ?i2, ?i3] ! k = best"
    "\<forall>j < length [?i1, ?i2, ?i3]. quality_score ([?i1, ?i2, ?i3] ! j) \<le> quality_score best"
    unfolding first_best_def by blast
  from k(1) consider "k = 0" | "k = 1" | "k = 2" by fastforce
  then have "best = ?i3"
  proof cases
    case 1
    with k(2) have "best = ?i1" by simp
    with k(3) [rule_format, of 2] scores show ?thesis by simp
  next
    case 2
    with k(2) have "best = ?i2" by simp
    with k(3) [rule_format, of 2] scores show ?thesis by simp
  next
    case 3
    with k(2) show ?thesis by simp
  qed
  with sf an have "synthesized_from ?E (snd ?X) ''q'' (research_results ?i3)
      (analysis_results ?i3) (citation_result ?i3) ''plain words''"
    by (simp add: loop_start_def init_workflow_def)
  with len show ?thesis by (simp add: loop_start_def init_workflow_def)
qed

subsection \<open>Claim C3: the sequential and the parallel pattern on deterministic stubs\<close>







































subsection \<open>Claim C4: an unknown pattern name\<close>

text \<open>
  Claim C4, as stated, fails: \<^verbatim>\<open>execute_workflow\<close> decomposes the query (step 1) before it
  looks at the pattern name (step 2), so one text-generation call has been made when the
  \<^verbatim>\<open>ValueError\<close> is raised.
\<close>

theorem invalid_pattern_decomposes_first:
  "fst (execute_workflow (scripted_env (\<lambda>k. (0, [], 0))) ''q'' ''bogus'')
     = Inl (ValueError ''Unknown execution pattern: bogus'') \<and>
   calls (snd (execute_workflow (scripted_env (\<lambda>k. (0, [], 0))) ''q'' ''bogus''))
     = [Generate (DecomposePrompt ''q'')]"
  by (simp add: run_simps)

text \<open>
  Claim C4, amended: for a pattern name other than sequential, parallel and loop, the only
  external call is the decomposition's text-generation call; no task is created, no
  specialist agent is called and \<^verbatim>\<open>final_result\<close> stays unset. When that call returns, the
  outcome is the \<^verbatim>\<open>ValueError\<close> naming the pattern; when it throws, its exception is the
  outcome.
\<close>

theorem invalid_pattern_after_decomposition:
  assumes "pat \<noteq> ''sequential''" and "pat \<noteq> ''parallel''" and "pat \<noteq> ''loop''"
  shows "calls (snd (execute_workflow env uq pat)) = [Generate (DecomposePrompt uq)] \<and>
         tasks (workflow (snd (execute_workflow env uq pat))) = [] \<and>
         final_result (workflow (snd (execute_workflow env uq pat))) = None \<and>
         fst (execute_workflow env uq pat) =
           (case generate_content_async env [] (DecomposePrompt uq) of
              Inl e \<Rightarrow> Inl e
            | Inr response \<Rightarrow> Inl (ValueError (''Unknown execution pattern: '' @ pat)))"
  using assms
  by (simp add: execute_workflow_def workflow_steps_def decompose_query_def dispatch_pattern_def
      bindM_apply call_generate_def returnM_apply raiseM_apply init_workflow_def
      split: sum.splits)

theorem invalid_pattern_after_decomposition_witness:
  "calls (snd (execute_workflow (scripted_env (\<lambda>k. (0, [], 0))) ''q'' ''fanout''))
     = [Generate (DecomposePrompt ''q'')] \<and>
   tasks (workflow (snd (execute_workflow (scripted_env (\<lambda>k. (0, [], 0))) ''q'' ''fanout''))) = [] \<and>
   fst (execute_workflow (scripted_env (\<lambda>k. (0, [], 0))) ''q'' ''fanout'')
     = Inl (ValueError ''Unknown execution pattern: fanout'')"
  using invalid_pattern_after_decomposition
    [of "''fanout''" "scripted_env (\<lambda>k. (0, [], 0))" "''q''"]
  by (simp add: scripted_env_def)

subsection \<open>Claim C5: a task whose agent throws\<close>

text \<open>
  What holds in every run, whatever the agents do: the exception of the first agent call
  that throws is the outcome of \<^verbatim>\<open>execute_workflow\<close>, the task of that call still has the
  status \<^verbatim>\<open>"in_progress"\<close> and no result, and every task of the workflow is
  \<^verbatim>\<open>"in_progress"\<close> or \<^verbatim>\<open>"completed"\<close>. No strategy has a \<^verbatim>\<open>try\<close> around an awaited agent
  call, and nothing assigns the status \<^verbatim>\<open>"failed"\<close>.
\<close>

lemma first_failure_propagates:
  assumes run: "execute_workflow env uq pat = (r, s)"
    and log: "calls s = h @ c # rest"
    and before: "all_ok env [] h"
    and fails: "outcome env h c = Some e"
    and agent: "\<not> is_generate c"
  shows "r = Inl e \<and>
         (\<exists>t \<in> set (tasks (workflow s)).
            task_matches c t \<and> status t = ''in_progress'' \<and> result t = None)"
proof -
  let ?s0 = "\<lparr>workflow = init_workflow uq pat, calls = []\<rparr>"
  from run have steps: "workflow_steps env uq pat ?s0 = (r, s)"
    by (simp add: execute_workflow_def)
  from obeysD [OF tracked_workflow_steps steps] have t: "tracked env ?s0 (err_of r) s" .
  have no: "\<not> all_ok env [] (h @ c # us)" for us
    using fails by (simp add: all_ok_append)
  from t have "err_of r = Some e \<and> has_open_task c s"
  proof (cases rule: tracked_cases)
    case (ok ext)
    with log no [of rest] show ?thesis by simp
  next
    case (failed ext0 c' tail e')
    from failed(1) log have "h @ c # rest = ext0 @ c' # tail" by simp
    then consider
      (same) "h = ext0" "c = c'" "rest = tail"
      | (earlier) us where "ext0 = h @ c # us"
      | (later) us where "h = ext0 @ c' # us"
      by (auto simp: append_eq_append_conv2 append_eq_Cons_conv Cons_eq_append_conv)
    then show ?thesis
    proof cases
      case same
      with failed fails show ?thesis by auto
    next
      case (earlier us)
      with failed(2) no [of us] show ?thesis by simp
    next
      case (later us)
      with before failed(3) show ?thesis by (simp add: all_ok_append)
    qed
  qed
  then have r: "err_of r = Some e" and o: "has_open_task c s" by simp_all
  from r have "r = Inl e" by (cases r) (simp_all add: err_of_def)
  moreover from o agent have "\<exists>t \<in> set (tasks (workflow s)).
      task_matches c t \<and> status t = ''in_progress'' \<and> result t = None"
    by (simp add: has_open_task_def)
  ultimately show ?thesis by simp
qed

lemma no_task_marked_failed:
  "list_all (\<lambda>t. status t = ''in_progress'' \<or> status t = ''completed'')
     (tasks (workflow (snd (execute_workflow env uq pat))))"
proof -
  let ?s0 = "\<lparr>workflow = init_workflow uq pat, calls = []\<rparr>"
  have steps: "workflow_steps env uq pat ?s0
      = (fst (execute_workflow env uq pat), snd (execute_workflow env uq pat))"
    by (simp add: execute_workflow_def)
  from obeysD [OF tasks_ok_workflow_steps steps]
  have "list_all task_ok (tasks (workflow (snd (execute_workflow env uq pat))))"
    by (simp add: tasks_ok_def init_workflow_def)
  then show ?thesis by (auto simp: list_all_iff task_ok_def)
qed

text \<open>
  In the parallel pattern the research calls of the fan-out are all made, also after one
  of them has thrown: with two research queries and a research agent that always throws,
  both calls are logged, the outcome is the exception of the first, and both tasks are
  left \<^verbatim>\<open>"in_progress"\<close>.
\<close>

lemma fan_out_is_not_cancelled:
  "execute_parallel research_down
     (JObj [(''research_queries'', JArr [JStr ''a'', JStr ''b'']), (''analysis_tasks'', JArr [JStr ''t''])])
     \<lparr>workflow = init_workflow ''q'' ''parallel'', calls = []\<rparr>
   = (Inl (CapabilityFailure ''research down''),
      \<lparr>workflow = (init_workflow ''q'' ''parallel'')
         \<lparr>tasks := [mark_in_progress (new_task (''research'', [0]) ''research'' (JStr ''a'') []),
                    mark_in_progress (new_task (''research'', [1]) ''research'' (JStr ''b'') [])]\<rparr>,
       calls = [Research (JStr ''a''), Research (JStr ''b'')]\<rparr>)"
  by (simp add: run_simps research_down_def)

text \<open>
  Claim C5 says that a task whose capability call throws is marked failed and is not left
  in progress, as do the status comment of \<^verbatim>\<open>AgentTask\<close>
  (\<^verbatim>\<open># pending, in_progress, completed, failed\<close>) and the metrics docstring. The code does
  otherwise. With a research agent whose \<^verbatim>\<open>execute\<close> raises, the sequential workflow for
  the query \<^verbatim>\<open>"q"\<close> ends with the agent's exception (that part of the claim holds), and its
  only task is left with the status \<^verbatim>\<open>"in_progress"\<close>, not \<^verbatim>\<open>"failed"\<close>.
\<close>

theorem failed_task_left_in_progress:
  "fst (execute_workflow research_down ''q'' ''sequential'') = Inl (CapabilityFailure ''research down'') \<and>
   map status (tasks (workflow (snd (execute_workflow research_down ''q'' ''sequential''))))
     = [''in_progress'']"
  by (simp add: run_simps research_down_def)

subsection \<open>Claim C6: a failure in the analysis stage\<close>

text \<open>
  Claim C6: if a call to the analysis agent throws, under any pattern, then it is the last
  external call of the workflow (so no citation call follows), \<^verbatim>\<open>execute_workflow\<close> ends
  with that exception, and \<^verbatim>\<open>final_result\<close> is not set.
\<close>

theorem analysis_failure_aborts_workflow:
  assumes run: "execute_workflow env uq pat = (r, s)"
    and log: "calls s = h @ Analysis t ctx # rest"
    and fails: "analysis_agent env h t ctx = Inl e"
  shows "rest = [] \<and> r = Inl e \<and> final_result (workflow s) = None"
proof -
  let ?s0 = "\<lparr>workflow = init_workflow uq pat, calls = []\<rparr>"
  from run have steps: "workflow_steps env uq pat ?s0 = (r, s)"
    by (simp add: execute_workflow_def)
  from obeysD [OF tracked_workflow_steps steps] have t: "tracked env ?s0 (err_of r) s" .
  from fails have "outcome env h (Analysis t ctx) = Some e" by simp
  from failed_call_is_last [OF t _ log this] have last: "rest = []" and r: "err_of r = Some e"
    by simp_all
  from r have r': "r = Inl e" by (cases r) (simp_all add: err_of_def)
  from workflow_steps_failure_config [OF steps [unfolded r']]
  have "final_result (workflow s) = None"
    by (simp add: same_config_def init_workflow_def)
  with last r' show ?thesis by simp
qed

theorem analysis_failure_aborts_workflow_witness:
  "(fst (execute_workflow analysis_down ''q'' ''sequential'') = Inl (CapabilityFailure ''analysis down'') \<and>
    final_result (workflow (snd (execute_workflow analysis_down ''q'' ''sequential''))) = None) \<and>
   (fst (execute_workflow analysis_down ''q'' ''parallel'') = Inl (CapabilityFailure ''analysis down'') \<and>
    final_result (workflow (snd (execute_workflow analysis_down ''q'' ''parallel''))) = None) \<and>
   (fst (execute_workflow analysis_down ''q'' ''loop'') = Inl (CapabilityFailure ''analysis down'') \<and>
    final_result (workflow (snd (execute_workflow analysis_down ''q'' ''loop''))) = None)"
proof -
  let ?h = "[Generate (DecomposePrompt ''q''), Research (JStr ''q'')]"
  let ?t = "JStr ''Analyze retrieved information''"
  let ?ctx = "[JObj [(''sources'', JArr [JNull])]]"
  have fails: "analysis_agent analysis_down ?h ?t ?ctx = Inl (CapabilityFailure ''analysis down'')"
    by (simp add: analysis_down_def)
  have seq: "calls (snd (execute_workflow analysis_down ''q'' ''sequential'')) = ?h @ Analysis ?t ?ctx # []"
    by (simp add: run_simps analysis_down_def)
  have par: "calls (snd (execute_workflow analysis_down ''q'' ''parallel'')) = ?h @ Analysis ?t ?ctx # []"
    by (simp add: run_simps analysis_down_def)
  have loop: "calls (snd (execute_workflow analysis_down ''q'' ''loop'')) = ?h @ Analysis ?t ?ctx # []"
    by (simp add: run_simps analysis_down_def upt_rec)
  from analysis_failure_aborts_workflow [OF prod.collapse [symmetric] seq fails]
    analysis_failure_aborts_workflow [OF prod.collapse [symmetric] par fails]
    analysis_failure_aborts_workflow [OF prod.collapse [symmetric] loop fails]
  show ?thesis by simp
qed

subsection \<open>Claim C10: a decomposition of another shape\<close>




































lemma expected_shape_runnable:
  assumes "expected_shape d"
  shows "runnable_stage d ''research_queries'' \<and> runnable_stage d ''analysis_tasks''"
proof -
  have "runnable_stage d k" if "has_nonempty_list d k" for k
  proof (cases d)
    case (JObj kvs)
    with that obtain v where v: "map_of kvs k = Some v" "nonempty_list v"
      by (cases "map_of kvs k") simp_all
    from v(2) obtain x xs where "v = JArr (x # xs)" by (cases v rule: nonempty_list.cases) simp_all
    with JObj v(1) show ?thesis by (simp add: runnable_stage_def stage_items_def bindE_def)
  qed (use that in simp_all)
  with assms show ?thesis by (simp add: expected_shape_def)
qed

lemma decompose_query_returns_parsed:
  assumes "generate_content_async env (calls s) (DecomposePrompt uq) = Inr response"
    and "parse_reply env response = Some d"
  shows "fst (decompose_query env uq s) = Inr d"
  using assms by (simp add: decompose_query_def bindM_apply call_generate_def returnM_apply)




end
